theory Spec2Isabelle
  imports Complex_Main "HOL-Library.Word"
begin

section \<open>JavaScript strings\<close>

text \<open>
  A JavaScript string is a sequence of UTF-16 code units. String literals of the source that
  are plain ASCII are written with \<open>js\<close>; the backslash is written as the code unit
  \<open>backslash\<close>.
\<close>

type_synonym code_unit = "16 word"
type_synonym jsstring = "code_unit list"

definition js :: "string \<Rightarrow> jsstring" where
  "js s = map (\<lambda>c. of_nat (of_char c)) s"

definition backslash :: code_unit where
  "backslash = 0x5C"

text \<open>\<open>String.fromCharCode\<close> on one number: the number is taken modulo \<open>2 ^ 16\<close>.\<close>

definition fromCharCode :: "nat \<Rightarrow> code_unit" where
  "fromCharCode n = of_nat n"

text \<open>The character classes \<open>[0-9]\<close>, \<open>[0-9a-fA-F]\<close> and \<open>\w\<close> of the regular expressions.\<close>

definition is_digit :: "code_unit \<Rightarrow> bool" where
  "is_digit c = (0x30 \<le> c \<and> c \<le> 0x39)"

definition is_hex :: "code_unit \<Rightarrow> bool" where
  "is_hex c = (is_digit c \<or> (0x41 \<le> c \<and> c \<le> 0x46) \<or> (0x61 \<le> c \<and> c \<le> 0x66))"

definition is_word_char :: "code_unit \<Rightarrow> bool" where
  "is_word_char c =
     (is_digit c \<or> (0x41 \<le> c \<and> c \<le> 0x5A) \<or> (0x61 \<le> c \<and> c \<le> 0x7A) \<or> c = 0x5F)"

text \<open>
  White space and line terminators of ECMAScript, as stripped by \<open>String.prototype.trim\<close>
  and by the conversion of a string to a number.
\<close>

definition is_white_space :: "code_unit \<Rightarrow> bool" where
  "is_white_space c =
     ((0x09 \<le> c \<and> c \<le> 0x0D) \<or> c = 0x20 \<or> c = 0xA0 \<or> c = 0x1680 \<or>
      (0x2000 \<le> c \<and> c \<le> 0x200A) \<or> c = 0x2028 \<or> c = 0x2029 \<or> c = 0x202F \<or>
      c = 0x205F \<or> c = 0x3000 \<or> c = 0xFEFF)"

definition trim :: "jsstring \<Rightarrow> jsstring" where
  "trim s = rev (dropWhile is_white_space (rev (dropWhile is_white_space s)))"

fun startsWith :: "jsstring \<Rightarrow> jsstring \<Rightarrow> bool" where
  "startsWith s [] = True"
| "startsWith [] (p # ps) = False"
| "startsWith (c # cs) (p # ps) = (c = p \<and> startsWith cs ps)"

text \<open>\<open>s.includes(t)\<close>: \<open>t\<close> occurs in \<open>s\<close> as a contiguous run.\<close>

fun str_includes :: "jsstring \<Rightarrow> jsstring \<Rightarrow> bool" where
  "str_includes [] t = (t = [])"
| "str_includes (c # cs) t = (startsWith (c # cs) t \<or> str_includes cs t)"

text \<open>
  \<open>s.split(sep)\<close> for a separator of one code unit: the pieces between the separators,
  so a string without separator gives the one piece \<open>s\<close>.
\<close>

fun str_split :: "code_unit \<Rightarrow> jsstring \<Rightarrow> jsstring list" where
  "str_split sep [] = [] # []"
| "str_split sep (c # cs) =
     (if c = sep then [] # str_split sep cs
      else (case str_split sep cs of [] \<Rightarrow> [c] # [] | p # ps \<Rightarrow> (c # p) # ps))"

text \<open>The value of a hexadecimal or decimal digit, and of a run of digits in a base.\<close>

definition digit_value :: "code_unit \<Rightarrow> nat" where
  "digit_value c =
     (if is_digit c then unat c - 0x30
      else if 0x41 \<le> c \<and> c \<le> 0x46 then unat c - 0x41 + 10
      else unat c - 0x61 + 10)"

definition digits_value :: "nat \<Rightarrow> jsstring \<Rightarrow> nat" where
  "digits_value base ds = foldl (\<lambda>a c. base * a + digit_value c) 0 ds"

text \<open>
  \<open>parseInt(s, 16)\<close> on a captured group of the escape patterns, which holds hexadecimal
  digits only.
\<close>

definition parseInt16 :: "jsstring \<Rightarrow> nat" where
  "parseInt16 s = digits_value 16 s"

section \<open>The content normalizer\<close>

text \<open>
  \<open>content.replace(/\\u([0-9a-fA-F]{4})/g, f)\<close> scans from left to right; where the
  pattern matches, the six code units are replaced and the scan goes on behind them, and
  elsewhere one code unit is copied.
\<close>

definition is_escape :: "nat \<Rightarrow> jsstring \<Rightarrow> bool" where
  "is_escape n s =
     (startsWith s [backslash, 0x75] \<and> n \<le> length (drop 2 s) \<and>
      list_all is_hex (take n (drop 2 s)))"

fun replace_bmp :: "jsstring \<Rightarrow> jsstring" where
  "replace_bmp [] = []"
| "replace_bmp (c # cs) =
     (if is_escape 4 (c # cs)
      then fromCharCode (parseInt16 (take 4 (drop 1 cs))) # replace_bmp (drop 5 cs)
      else c # replace_bmp cs)"

text \<open>
  The second replacement, with eight digits: the first four give the high surrogate and the
  last four the low surrogate.
\<close>

fun replace_supplementary :: "jsstring \<Rightarrow> jsstring" where
  "replace_supplementary [] = []"
| "replace_supplementary (c # cs) =
     (if is_escape 8 (c # cs)
      then (let codePoint = take 8 (drop 1 cs);
                highSurrogate = parseInt16 (take 4 codePoint);
                lowSurrogate = parseInt16 (take 4 (drop 4 codePoint))
            in fromCharCode highSurrogate # fromCharCode lowSurrogate #
               replace_supplementary (drop 9 cs))
      else c # replace_supplementary cs)"

definition processUnicodeContent :: "jsstring \<Rightarrow> jsstring" where
  "processUnicodeContent content =
     (if content = [] then []
      else let bmpProcessed = replace_bmp content in replace_supplementary bmpProcessed)"

section \<open>The code component of the renderer\<close>

text \<open>
  \<open>/language-(\w+)/.exec(s)\<close>: the leftmost place where \<open>language-\<close> is followed by a
  word character; the group is the longest run of word characters there.
\<close>

fun language_match :: "jsstring \<Rightarrow> jsstring option" where
  "language_match [] = None"
| "language_match (c # cs) =
     (let rest = drop 9 (c # cs) in
      if startsWith (c # cs) (js ''language-'') \<and> takeWhile is_word_char rest \<noteq> []
      then Some (takeWhile is_word_char rest)
      else language_match cs)"

text \<open>\<open>s.replace(/\n$/, '')\<close>: one line feed at the very end is removed.\<close>

definition strip_final_newline :: "jsstring \<Rightarrow> jsstring" where
  "strip_final_newline s = (if s \<noteq> [] \<and> last s = 0x0A then butlast s else s)"

text \<open>
  The properties of a code node that the component reads: the optional class name and the
  children, already converted with \<open>String\<close>.
\<close>

record code_props =
  className :: "jsstring option"
  children :: jsstring

text \<open>
  The two elements the component returns: the plain \<open>code\<close> element with class name and
  children, and the external code renderer with its content and language.
\<close>

datatype code_element =
  InlineCode "jsstring option" jsstring
  | CodeRenderer jsstring jsstring

definition code :: "code_props \<Rightarrow> code_element" where
  "code props =
     (let match = language_match (case className props of None \<Rightarrow> [] | Some cn \<Rightarrow> cn);
          isInline = (className props = None \<or> className props = Some [] \<or> match = None)
      in if isInline then InlineCode (className props) (children props)
         else CodeRenderer (strip_final_newline (children props))
                (case match of Some l \<Rightarrow> l | None \<Rightarrow> []))"

section \<open>Conversion of strings to numbers\<close>

text \<open>
  A JavaScript number is a double: not-a-number, an infinity, or a finite value, held here as
  the rational it denotes (the two zeros are not told apart).
\<close>

datatype jsnum = NaN | PosInfinity | NegInfinity | Finite rat

fun negate :: "jsnum \<Rightarrow> jsnum" where
  "negate NaN = NaN"
| "negate PosInfinity = NegInfinity"
| "negate NegInfinity = PosInfinity"
| "negate (Finite q) = Finite (- q)"

definition isNaN :: "jsnum \<Rightarrow> bool" where
  "isNaN n = (n = NaN)"

text \<open>The comparison \<open>n > 0\<close>.\<close>

fun positive :: "jsnum \<Rightarrow> bool" where
  "positive NaN = False"
| "positive PosInfinity = True"
| "positive NegInfinity = False"
| "positive (Finite q) = (0 < q)"

text \<open>
  Rounding of a non-negative rational to the nearest double, ties to even: 53 bits of
  precision, the least exponent for the subnormal numbers, and infinity from \<open>2 ^ 1024\<close> on.
\<close>

fun bit_length :: "nat \<Rightarrow> nat" where
  "bit_length n = (if n = 0 then 0 else Suc (bit_length (n div 2)))"

declare bit_length.simps [simp del]

definition floor_log2 :: "rat \<Rightarrow> int" where
  "floor_log2 q =
     (if 1 \<le> q then int (bit_length (nat \<lfloor>q\<rfloor>)) - 1
      else - int (bit_length (nat \<lceil>1 / q\<rceil> - 1)))"

definition pow2 :: "int \<Rightarrow> rat" where
  "pow2 e = (if 0 \<le> e then 2 ^ nat e else 1 / 2 ^ nat (- e))"

definition round_half_even :: "rat \<Rightarrow> int" where
  "round_half_even q =
     (let f = \<lfloor>q\<rfloor>; d = q - of_int f
      in if d < 1 / 2 then f else if 1 / 2 < d then f + 1 else if even f then f else f + 1)"

definition to_double :: "rat \<Rightarrow> jsnum" where
  "to_double q =
     (if q = 0 then Finite 0
      else let e = max (floor_log2 q) (- 1022);
               ulp = pow2 (e - 52);
               v = of_int (round_half_even (q / ulp)) * ulp
           in if pow2 1024 \<le> v then PosInfinity else Finite v)"

text \<open>
  \<open>Number(s)\<close> on a string: white space is trimmed; the empty text is 0; then the text is a
  binary, octal or hexadecimal integer with its prefix, or a signed decimal literal
  (\<open>Infinity\<close>, or digits with an optional fraction and an optional exponent); anything
  else is not a number.
\<close>

definition parse_exponent :: "jsstring \<Rightarrow> int option" where
  "parse_exponent s =
     (case s of
        [] \<Rightarrow> Some 0
      | c # r \<Rightarrow>
          if c = 0x65 \<or> c = 0x45 then
            (let neg = (r \<noteq> [] \<and> hd r = 0x2D);
                 ds = (if r \<noteq> [] \<and> (hd r = 0x2B \<or> hd r = 0x2D) then tl r else r)
             in if ds \<noteq> [] \<and> list_all is_digit ds
                then Some (if neg then - int (digits_value 10 ds) else int (digits_value 10 ds))
                else None)
          else None)"

definition scale10 :: "rat \<Rightarrow> int \<Rightarrow> rat" where
  "scale10 q e = (if 0 \<le> e then q * 10 ^ nat e else q / 10 ^ nat (- e))"

definition parse_unsigned_decimal :: "jsstring \<Rightarrow> jsnum" where
  "parse_unsigned_decimal s =
     (if s = js ''Infinity'' then PosInfinity
      else let ip = takeWhile is_digit s; r1 = dropWhile is_digit s
           in if r1 \<noteq> [] \<and> hd r1 = 0x2E then
                (let fp = takeWhile is_digit (tl r1); r2 = dropWhile is_digit (tl r1)
                 in if ip = [] \<and> fp = [] then NaN
                    else (case parse_exponent r2 of
                            None \<Rightarrow> NaN
                          | Some e \<Rightarrow>
                              to_double (scale10 (of_nat (digits_value 10 ip) +
                                of_nat (digits_value 10 fp) / 10 ^ length fp) e)))
              else if ip = [] then NaN
              else (case parse_exponent r1 of
                      None \<Rightarrow> NaN
                    | Some e \<Rightarrow> to_double (scale10 (of_nat (digits_value 10 ip)) e)))"

definition parse_decimal :: "jsstring \<Rightarrow> jsnum" where
  "parse_decimal s =
     (if s \<noteq> [] \<and> hd s = 0x2B then parse_unsigned_decimal (tl s)
      else if s \<noteq> [] \<and> hd s = 0x2D then negate (parse_unsigned_decimal (tl s))
      else parse_unsigned_decimal s)"

definition parse_non_decimal :: "jsstring \<Rightarrow> jsnum option" where
  "parse_non_decimal s =
     (case s of
        z # x # ds \<Rightarrow>
          if z = 0x30 \<and> ds \<noteq> [] then
            (if (x = 0x78 \<or> x = 0x58) \<and> list_all is_hex ds
             then Some (to_double (of_nat (digits_value 16 ds)))
             else if (x = 0x6F \<or> x = 0x4F) \<and> list_all (\<lambda>c. 0x30 \<le> c \<and> c \<le> 0x37) ds
             then Some (to_double (of_nat (digits_value 8 ds)))
             else if (x = 0x62 \<or> x = 0x42) \<and> list_all (\<lambda>c. c = 0x30 \<or> c = 0x31) ds
             then Some (to_double (of_nat (digits_value 2 ds)))
             else None)
          else None
      | _ \<Rightarrow> None)"

definition Number :: "jsstring \<Rightarrow> jsnum" where
  "Number s =
     (let t = trim s
      in if t = [] then Finite 0
         else (case parse_non_decimal t of Some n \<Rightarrow> n | None \<Rightarrow> parse_decimal t))"

section \<open>The image component of the renderer\<close>

text \<open>
  The properties of an image node that the component reads. Reading \<open>split\<close> of a missing
  \<open>src\<close> throws a type error.
\<close>

record img_props =
  src :: "jsstring option"
  alt :: "jsstring option"

datatype js_error = TypeError

text \<open>
  The two elements the component returns: the plain \<open>img\<close> element with source and alternative
  text, and the managed image with source, alternative text, width and height.
\<close>

datatype img_element =
  NativeImg jsstring jsstring
  | ManagedImage jsstring jsstring jsnum jsnum

text \<open>The width and height taken from the fragment \<open>hash\<close>, which is absent without \<open>#\<close>.\<close>

definition resolve_dimensions :: "jsstring option \<Rightarrow> jsnum \<times> jsnum" where
  "resolve_dimensions hash =
     (case hash of
        None \<Rightarrow> (Finite 500, Finite 300)
      | Some h \<Rightarrow>
          if h = [] then (Finite 500, Finite 300)
          else let dimensions = map Number (str_split 0x78 h)
               in if length dimensions = 2 \<and> \<not> isNaN (dimensions ! 0) \<and>
                     \<not> isNaN (dimensions ! 1) \<and> positive (dimensions ! 0) \<and>
                     positive (dimensions ! 1)
                  then (dimensions ! 0, dimensions ! 1)
                  else (Finite 500, Finite 300))"

text \<open>\<open>props.alt || 'markdown image'\<close>: a missing or empty text gives the default.\<close>

definition alt_text :: "jsstring option \<Rightarrow> jsstring" where
  "alt_text a =
     (case a of None \<Rightarrow> js ''markdown image''
      | Some t \<Rightarrow> if t = [] then js ''markdown image'' else t)"

text \<open>\<open>parts[i]\<close>, which is undefined behind the end of the array.\<close>

definition part :: "jsstring list \<Rightarrow> nat \<Rightarrow> jsstring option" where
  "part parts i = (if i < length parts then Some (parts ! i) else None)"

definition img :: "img_props \<Rightarrow> js_error + img_element" where
  "img props =
     (case src props of
        None \<Rightarrow> Inl TypeError
      | Some s \<Rightarrow>
          let srcParts = str_split 0x23 s;
              url = (case part srcParts 0 of None \<Rightarrow> [] | Some u \<Rightarrow> u);
              hash = part srcParts 1;
              (width, height) = resolve_dimensions hash
          in if startsWith url (js ''data:'') \<or> startsWith url (js ''blob:'')
             then Inr (NativeImg url (alt_text (alt props)))
             else Inr (ManagedImage url (alt_text (alt props)) width height))"

section \<open>The model selector: data\<close>

text \<open>
  A model descriptor, with the fields this component reads or writes. An absent flag reads as
  false everywhere in the component, so the flags are booleans.
\<close>

record ModelOption =
  mo_id :: jsstring
  mo_label :: jsstring
  mo_requiresSubscription :: bool
  mo_top :: bool
  mo_isCustom :: bool

record CustomModel =
  cm_id :: jsstring
  cm_label :: jsstring
  cm_apiKey :: "jsstring option"
  cm_apiBase :: "jsstring option"

record CustomModelFormData =
  fd_id :: jsstring
  fd_label :: jsstring
  fd_apiKey :: jsstring
  fd_apiBase :: jsstring

datatype dialog_mode = Add | Edit

text \<open>
  What the handlers do to the outside, in the order they do it: the calls of the callbacks
  \<open>onModelChange\<close>, \<open>canAccessModel\<close> and \<open>refreshCustomModels\<close>, of \<open>saveCustomModels\<close> and
  \<open>localStorage.setItem\<close>, of the console, of the event, of the document body, and the
  callbacks handed to \<open>setTimeout\<close> with their delay.
\<close>

datatype deferred = ResetHighlightedIndex | RestorePointerEvents

datatype effect =
  OnModelChange jsstring
  | CanAccessModel jsstring
  | RefreshCustomModels
  | SaveCustomModels "CustomModel list"
  | SetItem jsstring jsstring
  | ConsoleError
  | ConsoleWarn
  | StopPropagation
  | PreventDefault
  | BodyRemoveOverflowHidden
  | SetTimeout nat deferred

text \<open>
  The properties of the component; \<open>refreshCustomModels\<close> is optional, so only its presence
  is recorded.
\<close>

record props =
  selectedModel :: jsstring
  modelOptions :: "ModelOption list"
  canAccessModel :: "jsstring \<Rightarrow> bool"
  subscriptionStatus :: jsstring
  refreshCustomModels :: bool

text \<open>
  What the component imports and the sources do not hold, taken as parameters: the label
  generator, the storage key and the two default ids, the \<open>recommended\<close> flag of the table
  \<open>MODELS\<close>, the built-in functions \<open>toLowerCase\<close> and \<open>localeCompare\<close>, whose results depend
  on the Unicode tables and on the locale, and whether \<open>localStorage.setItem\<close> throws.
\<close>

record env =
  formatModelName :: "jsstring \<Rightarrow> jsstring"
  STORAGE_KEY_MODEL :: jsstring
  DEFAULT_FREE_MODEL_ID :: jsstring
  DEFAULT_PREMIUM_MODEL_ID :: jsstring
  recommended :: "jsstring \<Rightarrow> bool"
  toLowerCase :: "jsstring \<Rightarrow> jsstring"
  localeCompare :: "jsstring \<Rightarrow> jsstring \<Rightarrow> int"
  setItem_throws :: "jsstring \<Rightarrow> jsstring \<Rightarrow> bool"

text \<open>The state of the component, and the effects so far.\<close>

record state =
  paywallOpen :: bool
  lockedModel :: "jsstring option"
  isOpen :: bool
  searchQuery :: jsstring
  highlightedIndex :: int
  customModels :: "CustomModel list"
  isCustomModelDialogOpen :: bool
  dialogInitialData :: CustomModelFormData
  dialogMode :: dialog_mode
  editingModelId :: "jsstring option"
  effects :: "effect list"

definition emit :: "effect \<Rightarrow> state \<Rightarrow> state" where
  "emit x s = s\<lparr>effects := effects s @ [x]\<rparr>"

section \<open>The model selector: the merged catalog\<close>

text \<open>
  A JavaScript \<open>Map\<close> keeps its keys in the order of their first insertion; \<open>set\<close> on a key
  that is there replaces the value in place.
\<close>

type_synonym 'v jsmap = "(jsstring \<times> 'v) list"

fun map_set :: "jsstring \<Rightarrow> 'v \<Rightarrow> 'v jsmap \<Rightarrow> 'v jsmap" where
  "map_set k v [] = [(k, v)]"
| "map_set k v ((k', v') # m) = (if k' = k then (k, v) # m else (k', v') # map_set k v m)"

definition map_get :: "'v jsmap \<Rightarrow> jsstring \<Rightarrow> 'v option" where
  "map_get m k = map_of m k"

definition map_values :: "'v jsmap \<Rightarrow> 'v list" where
  "map_values m = map snd m"

definition add_standard :: "ModelOption jsmap \<Rightarrow> ModelOption \<Rightarrow> ModelOption jsmap" where
  "add_standard modelMap model = map_set (mo_id model) (model\<lparr>mo_isCustom := False\<rparr>) modelMap"

definition modelToSet :: "(jsstring \<Rightarrow> jsstring) \<Rightarrow> CustomModel \<Rightarrow> ModelOption" where
  "modelToSet fmt model =
     \<lparr>mo_id = cm_id model,
      mo_label = (if cm_label model \<noteq> [] then cm_label model else fmt (cm_id model)),
      mo_requiresSubscription = False,
      mo_top = False,
      mo_isCustom = True\<rparr>"

definition add_custom ::
  "(jsstring \<Rightarrow> jsstring) \<Rightarrow> ModelOption jsmap \<Rightarrow> CustomModel \<Rightarrow> ModelOption jsmap" where
  "add_custom fmt modelMap model =
     (case map_get modelMap (cm_id model) of
        None \<Rightarrow> map_set (cm_id model) (modelToSet fmt model) modelMap
      | Some existingModel \<Rightarrow>
          map_set (cm_id model)
            (existingModel\<lparr>mo_label := mo_label (modelToSet fmt model), mo_isCustom := True\<rparr>)
            modelMap)"

definition enhancedModelOptions ::
  "(jsstring \<Rightarrow> jsstring) \<Rightarrow> ModelOption list \<Rightarrow> CustomModel list \<Rightarrow> ModelOption list" where
  "enhancedModelOptions fmt options customs =
     map_values (foldl (add_custom fmt) (foldl add_standard [] options) customs)"

text \<open>
  The merged catalog in the words of the specification: every id once, in the order of its
  first occurrence, the built-in ids before the custom ones; an id of a custom entry gets the
  label of that entry (the generated label where it is empty) and the custom flag, on top of
  the built-in entry of the same id where there is one; any other built-in entry is kept, not
  flagged custom. Where an id occurs twice in a list, the last entry counts, as it does in
  the map.
\<close>

primrec uniq :: "'a list \<Rightarrow> 'a list" where
  "uniq [] = []"
| "uniq (x # xs) = x # filter (\<lambda>y. y \<noteq> x) (uniq xs)"

fun find_last :: "('a \<Rightarrow> bool) \<Rightarrow> 'a list \<Rightarrow> 'a option" where
  "find_last P [] = None"
| "find_last P (x # xs) =
     (case find_last P xs of Some y \<Rightarrow> Some y | None \<Rightarrow> if P x then Some x else None)"

definition merged_entry ::
  "(jsstring \<Rightarrow> jsstring) \<Rightarrow> ModelOption list \<Rightarrow> CustomModel list \<Rightarrow> jsstring \<Rightarrow> ModelOption option" where
  "merged_entry fmt options customs i =
     (case find_last (\<lambda>c. cm_id c = i) customs of
        None \<Rightarrow> map_option (\<lambda>b. b\<lparr>mo_isCustom := False\<rparr>) (find_last (\<lambda>b. mo_id b = i) options)
      | Some c \<Rightarrow>
          Some (case find_last (\<lambda>b. mo_id b = i) options of
                  None \<Rightarrow> modelToSet fmt c
                | Some b \<Rightarrow> b\<lparr>mo_label := mo_label (modelToSet fmt c), mo_isCustom := True\<rparr>))"

definition merge_spec ::
  "(jsstring \<Rightarrow> jsstring) \<Rightarrow> ModelOption list \<Rightarrow> CustomModel list \<Rightarrow> ModelOption list" where
  "merge_spec fmt options customs =
     List.map_filter (merged_entry fmt options customs)
       (uniq (map mo_id options @ map cm_id customs))"

text \<open>The keys of a map after \<open>set\<close>, and the map before its values are read.\<close>

definition ins :: "'a \<Rightarrow> 'a list \<Rightarrow> 'a list" where
  "ins k ks = (if k \<in> set ks then ks else ks @ [k])"

definition merged_map ::
  "(jsstring \<Rightarrow> jsstring) \<Rightarrow> ModelOption list \<Rightarrow> CustomModel list \<Rightarrow> ModelOption jsmap" where
  "merged_map fmt options customs = foldl (add_custom fmt) (foldl add_standard [] options) customs"

definition filteredOptions :: "env \<Rightarrow> props \<Rightarrow> state \<Rightarrow> ModelOption list" where
  "filteredOptions e p s =
     filter (\<lambda>opt.
         str_includes (toLowerCase e (mo_label opt)) (toLowerCase e (searchQuery s)) \<or>
         str_includes (toLowerCase e (mo_id opt)) (toLowerCase e (searchQuery s)))
       (enhancedModelOptions (formatModelName e) (modelOptions p) (customModels s))"

section \<open>The model selector: the handlers\<close>

text \<open>
  A handler reads the state of the render it belongs to and queues its updates, so every
  read below is from the state \<open>s\<close> the handler starts in.
\<close>

definition handleSelect :: "env \<Rightarrow> props \<Rightarrow> jsstring \<Rightarrow> state \<Rightarrow> state" where
  "handleSelect e p i s =
     (let selectedOption =
            find (\<lambda>opt. mo_id opt = i)
              (enhancedModelOptions (formatModelName e) (modelOptions p) (customModels s));
          isCustomModel = (case selectedOption of None \<Rightarrow> False | Some opt \<Rightarrow> mo_isCustom opt)
      in if isCustomModel then (emit (OnModelChange i) s)\<lparr>isOpen := False\<rparr>
         else if canAccessModel p i
         then (emit (OnModelChange i) (emit (CanAccessModel i) s))\<lparr>isOpen := False\<rparr>
         else (emit (CanAccessModel i) s)\<lparr>lockedModel := Some i, paywallOpen := True\<rparr>)"

text \<open>\<open>filteredOptions[i]\<close>, undefined outside the list.\<close>

definition option_at :: "ModelOption list \<Rightarrow> int \<Rightarrow> ModelOption option" where
  "option_at xs i = (if 0 \<le> i \<and> i < int (length xs) then Some (xs ! nat i) else None)"

definition handleSearchInputKeyDown :: "env \<Rightarrow> props \<Rightarrow> jsstring \<Rightarrow> state \<Rightarrow> state" where
  "handleSearchInputKeyDown e p key s =
     (let s1 = emit StopPropagation s;
          n = int (length (filteredOptions e p s));
          prev = highlightedIndex s
      in if key = js ''ArrowDown''
         then (emit PreventDefault s1)\<lparr>highlightedIndex := (if prev < n - 1 then prev + 1 else 0)\<rparr>
         else if key = js ''ArrowUp''
         then (emit PreventDefault s1)\<lparr>highlightedIndex := (if 0 < prev then prev - 1 else n - 1)\<rparr>
         else if key = js ''Enter'' \<and> 0 \<le> highlightedIndex s
         then (case option_at (filteredOptions e p s) (highlightedIndex s) of
                 None \<Rightarrow> emit PreventDefault s1
               | Some selectedOption \<Rightarrow>
                   handleSelect e p (mo_id selectedOption) (emit PreventDefault s1))
         else s1)"

definition closeCustomModelDialog :: "state \<Rightarrow> state" where
  "closeCustomModelDialog s =
     emit (SetTimeout 150 RestorePointerEvents)
       (emit BodyRemoveOverflowHidden
          (s\<lparr>isCustomModelDialogOpen := False,
             dialogInitialData := \<lparr>fd_id = [], fd_label = [], fd_apiKey = [], fd_apiBase = []\<rparr>,
             editingModelId := None\<rparr>))"

text \<open>
  \<open>onModelChange(id)\<close> followed by the guarded \<open>localStorage.setItem(STORAGE_KEY_MODEL, id)\<close>:
  where the call throws, a warning is logged and nothing else happens.
\<close>

definition change_and_store :: "env \<Rightarrow> jsstring \<Rightarrow> state \<Rightarrow> state" where
  "change_and_store e i s =
     (let s1 = emit (SetItem (STORAGE_KEY_MODEL e) i) (emit (OnModelChange i) s)
      in if setItem_throws e (STORAGE_KEY_MODEL e) i then emit ConsoleWarn s1 else s1)"

text \<open>\<open>s.replace(pat, '')\<close> with a string pattern: its first occurrence is removed.\<close>

fun remove_first :: "jsstring \<Rightarrow> jsstring \<Rightarrow> jsstring" where
  "remove_first pat [] = []"
| "remove_first pat (c # cs) =
     (if startsWith (c # cs) pat then drop (length pat) (c # cs) else c # remove_first pat cs)"

definition handleSaveCustomModel ::
  "env \<Rightarrow> props \<Rightarrow> CustomModelFormData \<Rightarrow> state \<Rightarrow> state" where
  "handleSaveCustomModel e p formData s =
     (let modelId = trim (fd_id formData);
          displayId = (if startsWith modelId (js ''openrouter/'')
                       then remove_first (js ''openrouter/'') modelId else modelId);
          modelLabel = (if trim (fd_label formData) \<noteq> [] then trim (fd_label formData)
                        else formatModelName e displayId)
      in if modelId = [] then s
         else if list_ex (\<lambda>m. cm_id m = modelId \<and>
                    (dialogMode s = Add \<or> Some (cm_id m) \<noteq> editingModelId s)) (customModels s)
         then emit ConsoleError s
         else
           let newModel = \<lparr>cm_id = modelId, cm_label = modelLabel,
                           cm_apiKey = Some (fd_apiKey formData),
                           cm_apiBase = Some (fd_apiBase formData)\<rparr>;
               updatedModels =
                 (if dialogMode s = Add then customModels s @ [newModel]
                  else map (\<lambda>m. if Some (cm_id m) = editingModelId s then newModel else m)
                         (customModels s));
               s1 = emit (SaveCustomModels updatedModels) (s\<lparr>customModels := updatedModels\<rparr>);
               s2 = (if refreshCustomModels p then emit RefreshCustomModels s1 else s1);
               s3 = closeCustomModelDialog s2;
               s4 = (if dialogMode s = Add then change_and_store e modelId s3
                     else if Some (selectedModel p) = editingModelId s
                     then change_and_store e modelId s3
                     else s3)
           in emit (SetTimeout 0 ResetHighlightedIndex) (s4\<lparr>isOpen := False\<rparr>))"

text \<open>
  The words of the specification for the save: an id is a duplicate when a custom entry other
  than the one being edited has it; the entry that is stored has the trimmed id, and the
  trimmed label or, where that is empty, the generated label of the id without a leading
  \<open>openrouter/\<close>; in add mode it is appended, in edit mode it replaces the edited entry.
\<close>

definition duplicate_id :: "state \<Rightarrow> jsstring \<Rightarrow> bool" where
  "duplicate_id s i =
     (\<exists>m \<in> set (customModels s). cm_id m = i \<and>
        \<not> (dialogMode s = Edit \<and> editingModelId s = Some (cm_id m)))"

definition saved_model :: "env \<Rightarrow> CustomModelFormData \<Rightarrow> CustomModel" where
  "saved_model e fd =
     \<lparr>cm_id = trim (fd_id fd),
      cm_label =
        (if trim (fd_label fd) \<noteq> [] then trim (fd_label fd)
         else formatModelName e
           (if startsWith (trim (fd_id fd)) (js ''openrouter/'')
            then drop 11 (trim (fd_id fd)) else trim (fd_id fd))),
      cm_apiKey = Some (fd_apiKey fd),
      cm_apiBase = Some (fd_apiBase fd)\<rparr>"

definition saved_models :: "env \<Rightarrow> CustomModelFormData \<Rightarrow> state \<Rightarrow> CustomModel list" where
  "saved_models e fd s =
     (if dialogMode s = Add then customModels s @ [saved_model e fd]
      else map (\<lambda>m. if Some (cm_id m) = editingModelId s then saved_model e fd else m)
             (customModels s))"

text \<open>The event is optional: \<open>ev\<close> says whether the handler got one.\<close>

definition handleDeleteCustomModel :: "env \<Rightarrow> props \<Rightarrow> jsstring \<Rightarrow> bool \<Rightarrow> state \<Rightarrow> state" where
  "handleDeleteCustomModel e p modelId ev s =
     (let s0 = (if ev then emit PreventDefault (emit StopPropagation s) else s);
          updatedCustomModels = filter (\<lambda>m. cm_id m \<noteq> modelId) (customModels s);
          s1 = emit (SaveCustomModels updatedCustomModels)
                 (s0\<lparr>customModels := updatedCustomModels\<rparr>);
          s2 = (if refreshCustomModels p then emit RefreshCustomModels s1 else s1);
          s3 = (if selectedModel p = modelId
                then (let defaultModelId =
                            (if subscriptionStatus p = js ''active''
                             then DEFAULT_PREMIUM_MODEL_ID e else DEFAULT_FREE_MODEL_ID e)
                      in change_and_store e defaultModelId s2)
                else s2)
      in emit (SetTimeout 0 ResetHighlightedIndex) (s3\<lparr>isOpen := False\<rparr>))"

text \<open>The default that the selection falls back to when the selected model is deleted.\<close>

definition fallback_model :: "env \<Rightarrow> props \<Rightarrow> jsstring" where
  "fallback_model e p =
     (if subscriptionStatus p = js ''active'' then DEFAULT_PREMIUM_MODEL_ID e
      else DEFAULT_FREE_MODEL_ID e)"

text \<open>The ids handed to \<open>onModelChange\<close> and the writes to storage, read off the effects.\<close>

definition selection_changes :: "effect list \<Rightarrow> jsstring list" where
  "selection_changes xs = concat (map (\<lambda>x. case x of OnModelChange i \<Rightarrow> [i] | _ \<Rightarrow> []) xs)"

definition storage_writes :: "effect list \<Rightarrow> effect list" where
  "storage_writes xs =
     filter (\<lambda>x. case x of SaveCustomModels _ \<Rightarrow> True | SetItem _ _ \<Rightarrow> True | _ \<Rightarrow> False) xs"

definition access_checks :: "effect list \<Rightarrow> jsstring list" where
  "access_checks xs = concat (map (\<lambda>x. case x of CanAccessModel i \<Rightarrow> [i] | _ \<Rightarrow> []) xs)"

section \<open>The model selector: the order of the view of all models\<close>

definition compare_models :: "env \<Rightarrow> ModelOption \<Rightarrow> ModelOption \<Rightarrow> int" where
  "compare_models e a b =
     (let aRecommendedPaid = (recommended e (mo_id a) \<and> mo_requiresSubscription a);
          bRecommendedPaid = (recommended e (mo_id b) \<and> mo_requiresSubscription b);
          aRecommended = recommended e (mo_id a);
          bRecommended = recommended e (mo_id b)
      in if aRecommendedPaid \<and> \<not> bRecommendedPaid then - 1
         else if \<not> aRecommendedPaid \<and> bRecommendedPaid then 1
         else if aRecommended \<and> \<not> bRecommended then - 1
         else if \<not> aRecommended \<and> bRecommended then 1
         else if mo_requiresSubscription a \<and> \<not> mo_requiresSubscription b then - 1
         else if \<not> mo_requiresSubscription a \<and> mo_requiresSubscription b then 1
         else localeCompare e (mo_label a) (mo_label b))"

text \<open>
  The four classes in the words of the specification: recommended and paid, recommended and
  free, paid, the rest.
\<close>

definition model_class :: "env \<Rightarrow> ModelOption \<Rightarrow> nat" where
  "model_class e m =
     (if recommended e (mo_id m) \<and> mo_requiresSubscription m then 0
      else if recommended e (mo_id m) then 1
      else if mo_requiresSubscription m then 2
      else 3)"

text \<open>
  A sample collation for closed statements, since \<open>localeCompare\<close> depends on the locale: the
  order of the code units. Like every collation it compares a string equal to itself.
\<close>

fun codeunit_compare :: "jsstring \<Rightarrow> jsstring \<Rightarrow> int" where
  "codeunit_compare [] [] = 0"
| "codeunit_compare [] (y # ys) = - 1"
| "codeunit_compare (x # xs) [] = 1"
| "codeunit_compare (x # xs) (y # ys) =
     (if x < y then - 1 else if y < x then 1 else codeunit_compare xs ys)"

section \<open>Sample inputs\<close>

text \<open>
  Concrete collaborators and a concrete state, for the closed statements: three built-in
  models, of which \<open>b\<close> and \<open>c\<close> are paid; two custom models, one with the id of \<open>b\<close> and one
  without label; a caller with an active subscription who may access \<open>a\<close> only and has
  selected the custom model \<open>n\<close>.
\<close>

definition ascii_lower :: "jsstring \<Rightarrow> jsstring" where
  "ascii_lower s = map (\<lambda>c. if 0x41 \<le> c \<and> c \<le> 0x5A then c + 0x20 else c) s"

definition sample_options :: "ModelOption list" where
  "sample_options =
     [\<lparr>mo_id = js ''a'', mo_label = js ''A'', mo_requiresSubscription = False, mo_top = False,
       mo_isCustom = False\<rparr>,
      \<lparr>mo_id = js ''b'', mo_label = js ''B'', mo_requiresSubscription = True, mo_top = False,
       mo_isCustom = False\<rparr>,
      \<lparr>mo_id = js ''c'', mo_label = js ''C'', mo_requiresSubscription = True, mo_top = False,
       mo_isCustom = False\<rparr>]"

definition sample_customs :: "CustomModel list" where
  "sample_customs =
     [\<lparr>cm_id = js ''b'', cm_label = js ''B2'', cm_apiKey = None, cm_apiBase = None\<rparr>,
      \<lparr>cm_id = js ''n'', cm_label = [], cm_apiKey = None, cm_apiBase = None\<rparr>]"

definition sample_env :: env where
  "sample_env =
     \<lparr>formatModelName = (\<lambda>i. js ''Model '' @ i),
      STORAGE_KEY_MODEL = js ''model'',
      DEFAULT_FREE_MODEL_ID = js ''free'',
      DEFAULT_PREMIUM_MODEL_ID = js ''premium'',
      recommended = (\<lambda>i. i = js ''c''),
      toLowerCase = ascii_lower,
      localeCompare = codeunit_compare,
      setItem_throws = (\<lambda>k v. False)\<rparr>"

definition sample_props :: props where
  "sample_props =
     \<lparr>selectedModel = js ''n'',
      modelOptions = sample_options,
      canAccessModel = (\<lambda>i. i = js ''a''),
      subscriptionStatus = js ''active'',
      refreshCustomModels = False\<rparr>"

definition sample_state :: state where
  "sample_state =
     \<lparr>paywallOpen = False, lockedModel = None, isOpen = True, searchQuery = [],
      highlightedIndex = - 1, customModels = sample_customs,
      isCustomModelDialogOpen = False,
      dialogInitialData = \<lparr>fd_id = [], fd_label = [], fd_apiKey = [], fd_apiBase = []\<rparr>,
      dialogMode = Add, editingModelId = None, effects = []\<rparr>"

text \<open>
  What it means for a class name to match the pattern \<open>language-<word>\<close>: somewhere in it,
  \<open>language-\<close> is followed by at least one word character.
\<close>

definition matches_language_pattern :: "jsstring \<Rightarrow> bool" where
  "matches_language_pattern cn =
     (\<exists>pre w post. cn = pre @ js ''language-'' @ w @ post \<and> w \<noteq> [] \<and> list_all is_word_char w)"

section \<open>Theorems\<close>

subsection \<open>Strings\<close>

lemma length_js [simp]: "length (js s) = length s"
  by (simp add: js_def)

lemma startsWith_append: "startsWith (p @ s) p"
  by (induction p) simp_all

lemma startsWith_decompose: "startsWith s p \<Longrightarrow> s = p @ drop (length p) s"
  by (induction s p rule: startsWith.induct) simp_all

lemmas char_class_defs =
  is_digit_def is_hex_def is_word_char_def is_white_space_def digit_value_def digits_value_def

subsection \<open>The content normalizer\<close>

lemma is_hex_not_backslash: "is_hex c \<Longrightarrow> c \<noteq> backslash"
  by (auto simp: is_hex_def is_digit_def backslash_def)

lemma is_hex_not_u: "is_hex c \<Longrightarrow> c \<noteq> 0x75"
  by (auto simp: is_hex_def is_digit_def)

lemma not_escape_hex: "is_hex c \<Longrightarrow> \<not> is_escape n (c # cs)"
  by (auto simp: is_escape_def dest: is_hex_not_backslash)

lemma replace_bmp_hex: "list_all is_hex ds \<Longrightarrow> replace_bmp ds = ds"
  by (induction ds) (simp_all add: not_escape_hex)

lemma replace_supplementary_hex:
  "list_all is_hex ds \<Longrightarrow> replace_supplementary (c # ds) = c # ds"
proof (induction ds arbitrary: c)
  case Nil
  then show ?case by (simp add: is_escape_def)
next
  case (Cons d ds)
  then have "\<not> is_escape 8 (c # d # ds)"
    by (auto simp: is_escape_def dest: is_hex_not_u)
  with Cons show ?case by simp
qed

text \<open>
  The eight-digit replacement never sees an eight-digit escape of the input: the four-digit
  replacement before it turns the first four digits into one code unit and leaves the last
  four as text.
\<close>

lemma processUnicodeContent_eight_digits:
  assumes "length hi = 4" "length lo = 4" "list_all is_hex hi" "list_all is_hex lo"
  shows "processUnicodeContent (backslash # 0x75 # hi @ lo) = fromCharCode (parseInt16 hi) # lo"
proof -
  have a: "replace_bmp (backslash # 0x75 # hi @ lo) =
      fromCharCode (parseInt16 hi) # replace_bmp lo"
    using assms by (simp add: is_escape_def)
  have b: "replace_bmp lo = lo"
    using assms(4) by (rule replace_bmp_hex)
  have c: "replace_supplementary (fromCharCode (parseInt16 hi) # lo) =
      fromCharCode (parseInt16 hi) # lo"
    using assms(4) by (rule replace_supplementary_hex)
  show ?thesis
    by (simp add: processUnicodeContent_def a b c
        del: replace_bmp.simps replace_supplementary.simps)
qed

text \<open>
  Claim C1: \<open>normalize\<close> of backslash, \<open>u\<close>, \<open>0041\<close> is \<open>A\<close>, and an escape of eight
  hexadecimal digits gives the two code units U+D83D U+DE00 of the supplementary character.
  The first holds of the code. The second does not: on backslash, \<open>u\<close>, \<open>0001F600\<close> the code
  gives the code unit 1 and the text \<open>F600\<close>, and on backslash, \<open>u\<close>, \<open>D83DDE00\<close>, the
  surrogate pair written out, it gives U+D83D and the text \<open>DE00\<close>. The four-digit
  replacement runs first and takes the first four digits, so the replacement that the source
  has for the eight-digit escapes finds none of them.
\<close>

theorem processUnicodeContent_eight_digits_not_decoded:
  "processUnicodeContent (backslash # js ''u0041'') = js ''A'' \<and>
   processUnicodeContent (backslash # js ''u0001F600'') = 0x0001 # js ''F600'' \<and>
   processUnicodeContent (backslash # js ''u0001F600'') \<noteq> [0xD83D, 0xDE00] \<and>
   processUnicodeContent (backslash # js ''uD83DDE00'') = 0xD83D # js ''DE00'' \<and>
   processUnicodeContent (backslash # js ''uD83DDE00'') \<noteq> [0xD83D, 0xDE00] \<and>
   replace_supplementary (backslash # js ''uD83DDE00'') = [0xD83D, 0xDE00]"
  by (simp add: processUnicodeContent_def is_escape_def js_def backslash_def parseInt16_def
      char_class_defs fromCharCode_def)

subsection \<open>The code component\<close>

lemma language_match_complete:
  assumes "w \<noteq> []" "list_all is_word_char w"
  shows "language_match (pre @ js ''language-'' @ w @ post) \<noteq> None"
proof (induction pre)
  case Nil
  from assms obtain x xs where w: "w = x # xs" and x: "is_word_char x"
    by (cases w) auto
  obtain c cs where ccs: "js ''language-'' @ w @ post = c # cs"
    using w by (cases "js ''language-'' @ w @ post") auto
  have sw: "startsWith (c # cs) (js ''language-'')"
    using startsWith_append [of "js ''language-''" "w @ post"] ccs by simp
  have dr: "drop 9 (c # cs) = w @ post"
    using ccs [symmetric] by simp
  have "takeWhile is_word_char (w @ post) \<noteq> []"
    using w x by simp
  then show ?case
    using sw dr ccs by (simp add: Let_def)
next
  case (Cons a pre)
  then show ?case by (auto simp: Let_def)
qed

lemma language_match_sound:
  "language_match cn = Some l \<Longrightarrow>
     \<exists>pre post. cn = pre @ js ''language-'' @ l @ post \<and> l \<noteq> [] \<and>
       list_all is_word_char l \<and> (post = [] \<or> \<not> is_word_char (hd post))"
proof (induction cn)
  case Nil
  then show ?case by simp
next
  case (Cons c cs)
  let ?rest = "drop 9 (c # cs)"
  show ?case
  proof (cases "startsWith (c # cs) (js ''language-'') \<and> takeWhile is_word_char ?rest \<noteq> []")
    case True
    with Cons.prems have l: "l = takeWhile is_word_char ?rest"
      by (simp add: Let_def)
    from True have "c # cs = js ''language-'' @ ?rest"
      using startsWith_decompose [of "c # cs" "js ''language-''"] by simp
    then have "c # cs = [] @ js ''language-'' @ l @ dropWhile is_word_char ?rest"
      using l by simp
    moreover have "l \<noteq> []"
      using True l by simp
    moreover have "list_all is_word_char l"
      unfolding l list_all_iff using set_takeWhileD by fastforce
    moreover have "dropWhile is_word_char ?rest = [] \<or>
        \<not> is_word_char (hd (dropWhile is_word_char ?rest))"
      using hd_dropWhile [of is_word_char ?rest] by blast
    ultimately show ?thesis by blast
  next
    case False
    with Cons.prems have "language_match cs = Some l"
      by (auto simp: Let_def)
    from Cons.IH [OF this] obtain pre post where
      *: "cs = pre @ js ''language-'' @ l @ post" "l \<noteq> []" "list_all is_word_char l"
      "post = [] \<or> \<not> is_word_char (hd post)" by blast
    then have "c # cs = (c # pre) @ js ''language-'' @ l @ post"
      by simp
    with * show ?thesis by blast
  qed
qed

lemma language_match_iff: "language_match cn \<noteq> None \<longleftrightarrow> matches_language_pattern cn"
proof
  assume "language_match cn \<noteq> None"
  then obtain l where "language_match cn = Some l" by auto
  from language_match_sound [OF this] show "matches_language_pattern cn"
    unfolding matches_language_pattern_def by blast
next
  assume "matches_language_pattern cn"
  then show "language_match cn \<noteq> None"
    unfolding matches_language_pattern_def using language_match_complete by blast
qed

text \<open>
  Claim C8: a code node whose class matches \<open>language-<word>\<close> is handed to the code renderer
  with the children minus one final line feed and with the matched word as the language: the
  word found is a maximal run of word characters behind \<open>language-\<close>. A node without class,
  or whose class does not match, is an inline code element. One final line feed is removed,
  and nothing else. Class \<open>language-python\<close> with children \<open>print(1)\<close> and a line feed gives
  language \<open>python\<close> and text \<open>print(1)\<close>.
\<close>

theorem code_delegates_fenced_blocks:
  "(matches_language_pattern cn \<longrightarrow>
      (\<exists>l pre post. cn = pre @ js ''language-'' @ l @ post \<and> l \<noteq> [] \<and>
         list_all is_word_char l \<and> (post = [] \<or> \<not> is_word_char (hd post)) \<and>
         code \<lparr>className = Some cn, children = ch\<rparr> =
           CodeRenderer (strip_final_newline ch) l)) \<and>
   (\<not> matches_language_pattern cn \<longrightarrow>
      code \<lparr>className = Some cn, children = ch\<rparr> = InlineCode (Some cn) ch) \<and>
   code \<lparr>className = None, children = ch\<rparr> = InlineCode None ch \<and>
   strip_final_newline (ch @ [0x0A]) = ch \<and>
   (ch = [] \<or> last ch \<noteq> 0x0A \<longrightarrow> strip_final_newline ch = ch) \<and>
   code \<lparr>className = Some (js ''language-python''), children = js ''print(1)'' @ [0x0A]\<rparr> =
     CodeRenderer (js ''print(1)'') (js ''python'')"
proof (intro conjI impI)
  assume m: "matches_language_pattern cn"
  then obtain l where l: "language_match cn = Some l"
    using language_match_iff [of cn] by auto
  have ne: "cn \<noteq> []"
    using l by auto
  have "code \<lparr>className = Some cn, children = ch\<rparr> = CodeRenderer (strip_final_newline ch) l"
    using l ne by (simp add: code_def)
  with language_match_sound [OF l]
  show "\<exists>l pre post. cn = pre @ js ''language-'' @ l @ post \<and> l \<noteq> [] \<and>
         list_all is_word_char l \<and> (post = [] \<or> \<not> is_word_char (hd post)) \<and>
         code \<lparr>className = Some cn, children = ch\<rparr> = CodeRenderer (strip_final_newline ch) l"
    by blast
next
  assume "\<not> matches_language_pattern cn"
  then have "language_match cn = None"
    using language_match_iff [of cn] by simp
  then show "code \<lparr>className = Some cn, children = ch\<rparr> = InlineCode (Some cn) ch"
    by (simp add: code_def)
next
  show "code \<lparr>className = None, children = ch\<rparr> = InlineCode None ch"
    by (simp add: code_def)
next
  show "strip_final_newline (ch @ [0x0A]) = ch"
    by (simp add: strip_final_newline_def)
next
  assume "ch = [] \<or> last ch \<noteq> 0x0A"
  then show "strip_final_newline ch = ch"
    by (auto simp: strip_final_newline_def)
next
  show "code \<lparr>className = Some (js ''language-python''), children = js ''print(1)'' @ [0x0A]\<rparr> =
     CodeRenderer (js ''print(1)'') (js ''python'')"
    by (simp add: code_def js_def char_class_defs strip_final_newline_def Let_def)
qed

theorem code_delegates_fenced_blocks_witness:
  "matches_language_pattern (js ''foo language-js bar'') \<and>
   \<not> matches_language_pattern (js ''language-'') \<and>
   (\<exists>l. code \<lparr>className = Some (js ''foo language-js bar''), children = js ''x''\<rparr> =
      CodeRenderer (js ''x'') l) \<and>
   code \<lparr>className = Some (js ''language-''), children = js ''x''\<rparr> =
     InlineCode (Some (js ''language-'')) (js ''x'')"
proof -
  have a: "matches_language_pattern (js ''foo language-js bar'')"
    unfolding language_match_iff [symmetric]
    by (simp add: js_def char_class_defs Let_def)
  have b: "\<not> matches_language_pattern (js ''language-'')"
    unfolding language_match_iff [symmetric]
    by (simp add: js_def char_class_defs Let_def)
  have c: "js ''x'' = [] \<or> last (js ''x'') \<noteq> 0x0A"
    by (simp add: js_def)
  from code_delegates_fenced_blocks [of "js ''foo language-js bar''" "js ''x''"] a c
  have "\<exists>l. code \<lparr>className = Some (js ''foo language-js bar''), children = js ''x''\<rparr> =
      CodeRenderer (js ''x'') l"
    by auto
  moreover from code_delegates_fenced_blocks [of "js ''language-''" "js ''x''"] b
  have "code \<lparr>className = Some (js ''language-''), children = js ''x''\<rparr> =
     InlineCode (Some (js ''language-'')) (js ''x'')"
    by blast
  ultimately show ?thesis
    using a b by blast
qed

subsection \<open>The image component\<close>

lemmas number_defs =
  Number_def trim_def parse_non_decimal_def parse_decimal_def parse_unsigned_decimal_def
  parse_exponent_def scale10_def to_double_def floor_log2_def pow2_def round_half_even_def
  bit_length.simps isNaN_def

lemma str_split_not_Nil [simp]: "str_split sep s \<noteq> []"
  by (induction s) (auto split: list.splits)

lemma part0_str_split: "part (str_split sep s) 0 = Some (takeWhile (\<lambda>c. c \<noteq> sep) s)"
proof (induction s)
  case Nil
  then show ?case by (simp add: part_def)
next
  case (Cons c s)
  then show ?case by (cases "str_split sep s") (auto simp: part_def)
qed

lemma startsWith_takeWhile:
  "sep \<notin> set p \<Longrightarrow> startsWith (takeWhile (\<lambda>c. c \<noteq> sep) s) p = startsWith s p"
  by (induction s p rule: startsWith.induct) auto

lemma img_url_scheme:
  "startsWith (takeWhile (\<lambda>c. c \<noteq> 0x23) s) (js ''data:'') = startsWith s (js ''data:'')"
  "startsWith (takeWhile (\<lambda>c. c \<noteq> 0x23) s) (js ''blob:'') = startsWith s (js ''blob:'')"
  by (rule startsWith_takeWhile, simp add: js_def)+

lemma img_native:
  assumes "startsWith s (js ''data:'') \<or> startsWith s (js ''blob:'')"
  shows "img \<lparr>src = Some s, alt = a\<rparr> =
    Inr (NativeImg (takeWhile (\<lambda>c. c \<noteq> 0x23) s) (alt_text a))"
  using assms by (auto simp: img_def part0_str_split img_url_scheme split: prod.splits)

lemma img_managed:
  assumes "\<not> startsWith s (js ''data:'')" "\<not> startsWith s (js ''blob:'')"
  shows "img \<lparr>src = Some s, alt = a\<rparr> =
    Inr (ManagedImage (takeWhile (\<lambda>c. c \<noteq> 0x23) s) (alt_text a)
      (fst (resolve_dimensions (part (str_split 0x23 s) 1)))
      (snd (resolve_dimensions (part (str_split 0x23 s) 1))))"
  using assms by (auto simp: img_def part0_str_split img_url_scheme split: prod.splits)

lemma Number_examples:
  "Number (js ''300'') = Finite 300" "Number (js ''200'') = Finite 200"
  "Number (js ''0'') = Finite 0" "Number (js ''abc'') = NaN" "Number (js ''def'') = NaN"
  "Number (js ''5'') = Finite 5" "Number (js ''7'') = Finite 7" "Number [] = Finite 0"
  by (simp_all add: number_defs js_def char_class_defs Let_def)

lemma resolve_dimensions_examples:
  "resolve_dimensions (Some (js ''300x200'')) = (Finite 300, Finite 200)"
  "resolve_dimensions (Some (js ''abcxdef'')) = (Finite 500, Finite 300)"
  "resolve_dimensions (Some (js ''0x0'')) = (Finite 500, Finite 300)"
proof -
  have "str_split 0x78 (js ''300x200'') = [js ''300'', js ''200'']" "js ''300x200'' \<noteq> []"
    by (simp_all add: js_def)
  then show "resolve_dimensions (Some (js ''300x200'')) = (Finite 300, Finite 200)"
    by (simp add: resolve_dimensions_def Number_examples isNaN_def)
  have "str_split 0x78 (js ''abcxdef'') = [js ''abc'', js ''def'']"
    by (simp add: js_def)
  then show "resolve_dimensions (Some (js ''abcxdef'')) = (Finite 500, Finite 300)"
    by (simp add: resolve_dimensions_def Number_examples isNaN_def)
  have "str_split 0x78 (js ''0x0'') = [js ''0'', js ''0'']"
    by (simp add: js_def)
  then show "resolve_dimensions (Some (js ''0x0'')) = (Finite 500, Finite 300)"
    by (simp add: resolve_dimensions_def Number_examples isNaN_def)
qed

lemma img_foo_png:
  assumes "h \<noteq> []" "0x23 \<notin> set h"
  shows "img \<lparr>src = Some (js ''foo.png'' @ 0x23 # h), alt = a\<rparr> =
    Inr (ManagedImage (js ''foo.png'') (alt_text a)
      (fst (resolve_dimensions (Some h))) (snd (resolve_dimensions (Some h))))"
proof -
  have "str_split 0x23 h = [h]"
    using assms(2) by (induction h) auto
  then have "str_split 0x23 (js ''foo.png'' @ 0x23 # h) = [js ''foo.png'', h]"
    by (simp add: js_def)
  then show ?thesis
    by (simp add: img_def part_def js_def split: prod.splits)
qed

text \<open>
  Claim C4: the source \<open>foo.png#300x200\<close> gives width 300 and height 200; the fragments
  \<open>abcxdef\<close> and \<open>0x0\<close> give the default 500 and 300, as does every fragment that has not
  exactly two parts around \<open>x\<close> or has a part that is not a number or not above 0; a fragment
  of two parts that are numbers above 0 gives these; a source that starts with \<open>data:\<close> or
  \<open>blob:\<close> is the plain image element, whatever the fragment, and every other source is the
  managed image with the dimensions resolved from its fragment.
\<close>

theorem img_dimensions_and_element:
  "img \<lparr>src = Some (js ''foo.png#300x200''), alt = a\<rparr> =
     Inr (ManagedImage (js ''foo.png'') (alt_text a) (Finite 300) (Finite 200)) \<and>
   img \<lparr>src = Some (js ''foo.png#abcxdef''), alt = a\<rparr> =
     Inr (ManagedImage (js ''foo.png'') (alt_text a) (Finite 500) (Finite 300)) \<and>
   img \<lparr>src = Some (js ''foo.png#0x0''), alt = a\<rparr> =
     Inr (ManagedImage (js ''foo.png'') (alt_text a) (Finite 500) (Finite 300)) \<and>
   img \<lparr>src = Some (js ''data:image/png;base64,AAAA''), alt = a\<rparr> =
     Inr (NativeImg (js ''data:image/png;base64,AAAA'') (alt_text a)) \<and>
   (startsWith s (js ''data:'') \<or> startsWith s (js ''blob:'') \<longrightarrow>
      img \<lparr>src = Some s, alt = a\<rparr> =
        Inr (NativeImg (takeWhile (\<lambda>c. c \<noteq> 0x23) s) (alt_text a))) \<and>
   (\<not> startsWith s (js ''data:'') \<and> \<not> startsWith s (js ''blob:'') \<longrightarrow>
      img \<lparr>src = Some s, alt = a\<rparr> =
        Inr (ManagedImage (takeWhile (\<lambda>c. c \<noteq> 0x23) s) (alt_text a)
          (fst (resolve_dimensions (part (str_split 0x23 s) 1)))
          (snd (resolve_dimensions (part (str_split 0x23 s) 1))))) \<and>
   (length (str_split 0x78 h) \<noteq> 2 \<or>
    (\<exists>p \<in> set (str_split 0x78 h). isNaN (Number p) \<or> \<not> positive (Number p)) \<longrightarrow>
      resolve_dimensions (Some h) = (Finite 500, Finite 300)) \<and>
   (h \<noteq> [] \<and> str_split 0x78 h = [w, ht] \<and> positive (Number w) \<and> positive (Number ht) \<longrightarrow>
      resolve_dimensions (Some h) = (Number w, Number ht))"
proof (intro conjI impI)
  show "img \<lparr>src = Some (js ''foo.png#300x200''), alt = a\<rparr> =
     Inr (ManagedImage (js ''foo.png'') (alt_text a) (Finite 300) (Finite 200))"
    using img_foo_png [of "js ''300x200''" a]
    by (simp add: resolve_dimensions_examples) (simp add: js_def)
  show "img \<lparr>src = Some (js ''foo.png#abcxdef''), alt = a\<rparr> =
     Inr (ManagedImage (js ''foo.png'') (alt_text a) (Finite 500) (Finite 300))"
    using img_foo_png [of "js ''abcxdef''" a]
    by (simp add: resolve_dimensions_examples) (simp add: js_def)
  show "img \<lparr>src = Some (js ''foo.png#0x0''), alt = a\<rparr> =
     Inr (ManagedImage (js ''foo.png'') (alt_text a) (Finite 500) (Finite 300))"
    using img_foo_png [of "js ''0x0''" a]
    by (simp add: resolve_dimensions_examples) (simp add: js_def)
  show "img \<lparr>src = Some (js ''data:image/png;base64,AAAA''), alt = a\<rparr> =
     Inr (NativeImg (js ''data:image/png;base64,AAAA'') (alt_text a))"
    using img_native [of "js ''data:image/png;base64,AAAA''" a]
    by (simp add: js_def)
next
  assume "startsWith s (js ''data:'') \<or> startsWith s (js ''blob:'')"
  then show "img \<lparr>src = Some s, alt = a\<rparr> =
      Inr (NativeImg (takeWhile (\<lambda>c. c \<noteq> 0x23) s) (alt_text a))"
    by (rule img_native)
next
  assume "\<not> startsWith s (js ''data:'') \<and> \<not> startsWith s (js ''blob:'')"
  then show "img \<lparr>src = Some s, alt = a\<rparr> =
        Inr (ManagedImage (takeWhile (\<lambda>c. c \<noteq> 0x23) s) (alt_text a)
          (fst (resolve_dimensions (part (str_split 0x23 s) 1)))
          (snd (resolve_dimensions (part (str_split 0x23 s) 1))))"
    by (simp add: img_managed)
next
  assume *: "length (str_split 0x78 h) \<noteq> 2 \<or>
    (\<exists>p \<in> set (str_split 0x78 h). isNaN (Number p) \<or> \<not> positive (Number p))"
  show "resolve_dimensions (Some h) = (Finite 500, Finite 300)"
  proof (cases "length (str_split 0x78 h) = 2")
    case False
    then show ?thesis by (simp add: resolve_dimensions_def)
  next
    case True
    then obtain p q where pq: "str_split 0x78 h = [p, q]"
      by (cases "str_split 0x78 h"; cases "tl (str_split 0x78 h)") auto
    with * True have "isNaN (Number p) \<or> \<not> positive (Number p) \<or>
        isNaN (Number q) \<or> \<not> positive (Number q)"
      by auto
    then show ?thesis
      using pq by (auto simp: resolve_dimensions_def)
  qed
next
  assume "h \<noteq> [] \<and> str_split 0x78 h = [w, ht] \<and> positive (Number w) \<and> positive (Number ht)"
  moreover have "positive n \<Longrightarrow> \<not> isNaN n" for n
    by (cases n) (simp_all add: isNaN_def)
  ultimately show "resolve_dimensions (Some h) = (Number w, Number ht)"
    by (auto simp: resolve_dimensions_def)
qed

theorem img_dimensions_and_element_witness:
  "startsWith (js ''blob:abc#5x7'') (js ''blob:'') \<and>
   img \<lparr>src = Some (js ''blob:abc#5x7''), alt = None\<rparr> =
     Inr (NativeImg (js ''blob:abc'') (js ''markdown image'')) \<and>
   \<not> startsWith (js ''a.png'') (js ''data:'') \<and> \<not> startsWith (js ''a.png'') (js ''blob:'') \<and>
   img \<lparr>src = Some (js ''a.png''), alt = Some (js ''cat'')\<rparr> =
     Inr (ManagedImage (js ''a.png'') (js ''cat'') (Finite 500) (Finite 300)) \<and>
   length (str_split 0x78 (js ''5x7x'')) \<noteq> 2 \<and>
   resolve_dimensions (Some (js ''5x7x'')) = (Finite 500, Finite 300) \<and>
   js ''5x7'' \<noteq> [] \<and> str_split 0x78 (js ''5x7'') = [js ''5'', js ''7''] \<and>
   positive (Number (js ''5'')) \<and> positive (Number (js ''7'')) \<and>
   resolve_dimensions (Some (js ''5x7'')) = (Finite 5, Finite 7)"
proof -
  have sp: "str_split 0x78 (js ''5x7'') = [js ''5'', js ''7'']"
    "length (str_split 0x78 (js ''5x7x'')) \<noteq> 2" "js ''5x7'' \<noteq> []"
    by (simp_all add: js_def)
  have sw: "startsWith (js ''blob:abc#5x7'') (js ''blob:'')"
    "\<not> startsWith (js ''a.png'') (js ''data:'')" "\<not> startsWith (js ''a.png'') (js ''blob:'')"
    by (simp_all add: js_def)
  have tw: "takeWhile (\<lambda>c. c \<noteq> 0x23) (js ''blob:abc#5x7'') = js ''blob:abc''"
    "takeWhile (\<lambda>c. c \<noteq> 0x23) (js ''a.png'') = js ''a.png''"
    "part (str_split 0x23 (js ''a.png'')) (Suc 0) = None"
    by (simp_all add: js_def part_def)
  have al: "alt_text None = js ''markdown image''" "alt_text (Some (js ''cat'')) = js ''cat''"
    by (simp_all add: alt_text_def js_def)
  have df: "resolve_dimensions None = (Finite 500, Finite 300)"
    by (simp add: resolve_dimensions_def)
  note t1 = img_dimensions_and_element [of None "js ''blob:abc#5x7''" "js ''5x7x''"]
  note t2 = img_dimensions_and_element
    [of "Some (js ''cat'')" "js ''a.png''" "js ''5x7''" "js ''5''" "js ''7''"]
  from t1 sw(1) have a: "img \<lparr>src = Some (js ''blob:abc#5x7''), alt = None\<rparr> =
     Inr (NativeImg (js ''blob:abc'') (js ''markdown image''))"
    by (simp add: tw al)
  from t1 sp(2) have b: "resolve_dimensions (Some (js ''5x7x'')) = (Finite 500, Finite 300)"
    by blast
  from t2 sw(2,3) have c: "img \<lparr>src = Some (js ''a.png''), alt = Some (js ''cat'')\<rparr> =
     Inr (ManagedImage (js ''a.png'') (js ''cat'') (Finite 500) (Finite 300))"
    by (simp add: tw al df)
  from t2 sp(1,3) have d: "resolve_dimensions (Some (js ''5x7'')) = (Finite 5, Finite 7)"
    by (simp add: Number_examples)
  show ?thesis
    using a b c d sp sw by (simp add: Number_examples)
qed

subsection \<open>The merged catalog\<close>

lemma set_uniq [simp]: "set (uniq xs) = set xs"
  by (induction xs) auto

lemma distinct_uniq [simp]: "distinct (uniq xs)"
  by (induction xs) auto

lemma uniq_distinct: "distinct xs \<Longrightarrow> uniq xs = xs"
  by (induction xs) (auto simp: filter_id_conv)

lemma foldl_ins: "foldl (\<lambda>ks k. ins k ks) ks xs = ks @ filter (\<lambda>x. x \<notin> set ks) (uniq xs)"
proof (induction xs arbitrary: ks)
  case Nil
  then show ?case by simp
next
  case (Cons x xs)
  show ?case
  proof (cases "x \<in> set ks")
    case True
    then have "filter (\<lambda>y. y \<notin> set ks) (filter (\<lambda>y. y \<noteq> x) (uniq xs)) = filter (\<lambda>y. y \<notin> set ks) (uniq xs)"
      by (auto intro: filter_cong)
    with True Cons.IH [of ks] show ?thesis by (simp add: ins_def)
  next
    case False
    have "filter (\<lambda>y. y \<notin> set (ks @ [x])) (uniq xs) = filter (\<lambda>y. y \<notin> set ks) (filter (\<lambda>y. y \<noteq> x) (uniq xs))"
      by (auto intro: filter_cong)
    with False Cons.IH [of "ks @ [x]"] show ?thesis by (simp add: ins_def)
  qed
qed

lemma uniq_append: "uniq (xs @ ys) = uniq xs @ filter (\<lambda>y. y \<notin> set xs) (uniq ys)"
  by (induction xs) (auto simp: filter_filter intro: filter_cong)

lemma keys_map_set: "map fst (map_set k v m) = ins k (map fst m)"
  by (induction m) (force simp: ins_def)+

lemma map_of_map_set: "map_of (map_set k v m) = (map_of m)(k \<mapsto> v)"
  by (induction m) (auto simp: fun_eq_iff)

lemma set_map_set: "set (map_set k v m) \<subseteq> insert (k, v) (set m)"
  by (induction m) (auto split: if_splits)

lemma find_last_Some: "find_last P xs = Some x \<Longrightarrow> P x \<and> x \<in> set xs"
  by (induction xs) (auto split: option.splits if_splits)

lemma find_last_None: "find_last P xs = None \<longleftrightarrow> (\<forall>x \<in> set xs. \<not> P x)"
  by (induction xs) (auto split: option.splits)

lemma keys_add_standard: "map fst (add_standard m b) = ins (mo_id b) (map fst m)"
  by (simp add: add_standard_def keys_map_set)

lemma keys_add_custom: "map fst (add_custom fmt m c) = ins (cm_id c) (map fst m)"
  by (simp add: add_custom_def keys_map_set split: option.splits)

lemma keys_foldl_add_standard:
  "map fst (foldl add_standard m bs) = foldl (\<lambda>ks k. ins k ks) (map fst m) (map mo_id bs)"
  by (induction bs arbitrary: m) (simp_all add: keys_add_standard)

lemma keys_foldl_add_custom:
  "map fst (foldl (add_custom fmt) m cs) = foldl (\<lambda>ks k. ins k ks) (map fst m) (map cm_id cs)"
  by (induction cs arbitrary: m) (simp_all add: keys_add_custom)

lemma keys_merged_map:
  "map fst (merged_map fmt options customs) = uniq (map mo_id options @ map cm_id customs)"
  by (simp add: merged_map_def keys_foldl_add_custom keys_foldl_add_standard foldl_ins uniq_append)

lemma map_of_add_standard:
  "map_of (add_standard m b) = (map_of m)(mo_id b \<mapsto> b\<lparr>mo_isCustom := False\<rparr>)"
  by (simp add: add_standard_def map_of_map_set)

lemma map_of_foldl_add_standard:
  "map_of (foldl add_standard m bs) i =
     (case find_last (\<lambda>b. mo_id b = i) bs of
        Some b \<Rightarrow> Some (b\<lparr>mo_isCustom := False\<rparr>) | None \<Rightarrow> map_of m i)"
proof (induction bs arbitrary: m)
  case Nil
  then show ?case by simp
next
  case (Cons b bs)
  show ?case
    by (simp add: Cons.IH map_of_add_standard split: option.splits)
qed

lemma map_of_add_custom:
  "map_of (add_custom fmt m c) =
     (map_of m)(cm_id c \<mapsto>
       (case map_of m (cm_id c) of
          None \<Rightarrow> modelToSet fmt c
        | Some ex \<Rightarrow> ex\<lparr>mo_label := mo_label (modelToSet fmt c), mo_isCustom := True\<rparr>))"
  by (simp add: add_custom_def map_get_def map_of_map_set split: option.splits)

lemma map_of_foldl_add_custom:
  "map_of (foldl (add_custom fmt) m cs) i =
     (case find_last (\<lambda>c. cm_id c = i) cs of
        None \<Rightarrow> map_of m i
      | Some c \<Rightarrow>
          Some (case map_of m i of
                  None \<Rightarrow> modelToSet fmt c
                | Some ex \<Rightarrow> ex\<lparr>mo_label := mo_label (modelToSet fmt c), mo_isCustom := True\<rparr>))"
proof (induction cs arbitrary: m)
  case Nil
  then show ?case by simp
next
  case (Cons c0 cs)
  show ?case
  proof (cases "find_last (\<lambda>c. cm_id c = i) cs")
    case None
    then show ?thesis
      by (simp add: Cons.IH map_of_add_custom)
  next
    case (Some c)
    then have ci: "cm_id c = i"
      using find_last_Some by fastforce
    show ?thesis
      using Some ci
      by (auto simp: Cons.IH map_of_add_custom modelToSet_def split: option.splits)
  qed
qed

lemma map_of_merged_map:
  "map_of (merged_map fmt options customs) i = merged_entry fmt options customs i"
  by (simp add: merged_map_def map_of_foldl_add_custom map_of_foldl_add_standard merged_entry_def
      split: option.splits)

lemma map_filter_cong:
  "\<forall>x \<in> set xs. f x = g x \<Longrightarrow> List.map_filter f xs = List.map_filter g xs"
  by (induction xs) (auto simp: map_filter_simps split: option.splits)

lemma map_filter_map_of:
  "distinct (map fst m) \<Longrightarrow> List.map_filter (map_of m) (map fst m) = map snd m"
proof (induction m)
  case Nil
  then show ?case by (simp add: map_filter_simps)
next
  case (Cons kv m)
  obtain k v where kv: "kv = (k, v)" by (cases kv)
  from Cons.prems kv have k: "k \<notin> fst ` set m" and d: "distinct (map fst m)"
    by simp_all
  have "\<forall>x \<in> set (map fst m). map_of ((k, v) # m) x = map_of m x"
    using k by auto
  then have same: "List.map_filter (map_of ((k, v) # m)) (map fst m) =
      List.map_filter (map_of m) (map fst m)"
    by (rule map_filter_cong)
  have "List.map_filter (map_of ((k, v) # m)) (map fst ((k, v) # m)) =
      v # List.map_filter (map_of ((k, v) # m)) (map fst m)"
    by (simp add: map_filter_simps del: map_of.simps) simp
  also have "\<dots> = v # map snd m"
    by (simp only: same Cons.IH [OF d])
  finally show ?case
    by (simp only: kv list.map snd_conv)
qed

lemma enhancedModelOptions_eq_merge_spec:
  "enhancedModelOptions fmt options customs = merge_spec fmt options customs"
proof -
  let ?m = "merged_map fmt options customs"
  have d: "distinct (map fst ?m)"
    by (simp add: keys_merged_map)
  have "map_of ?m = merged_entry fmt options customs"
    by (rule ext) (rule map_of_merged_map)
  with map_filter_map_of [OF d] show ?thesis
    by (simp add: enhancedModelOptions_def map_values_def merge_spec_def keys_merged_map
        merged_map_def [symmetric])
qed


lemma find_last_Some_image: "find_last (\<lambda>c. f c = i) xs = Some c \<Longrightarrow> i \<in> f ` set xs"
  by (drule find_last_Some) force

lemma merged_entry_id: "merged_entry fmt options customs i = Some r \<Longrightarrow> mo_id r = i"
  by (auto simp: merged_entry_def modelToSet_def split: option.splits dest: find_last_Some)

lemma merged_entry_None:
  "merged_entry fmt options customs i = None \<longleftrightarrow>
     i \<notin> mo_id ` set options \<union> cm_id ` set customs"
  by (auto simp: merged_entry_def find_last_None split: option.splits dest: find_last_Some)

lemma set_map_filter: "set (List.map_filter f xs) = {y. \<exists>x \<in> set xs. f x = Some y}"
  by (induction xs) (auto simp: map_filter_simps split: option.splits)

lemma map_map_filter_inverse:
  "\<forall>x \<in> set xs. \<exists>y. f x = Some y \<and> g y = x \<Longrightarrow> map g (List.map_filter f xs) = xs"
  by (induction xs) (auto simp: map_filter_simps split: option.splits)

lemma ids_merge_spec:
  "map mo_id (merge_spec fmt options customs) = uniq (map mo_id options @ map cm_id customs)"
  unfolding merge_spec_def
proof (rule map_map_filter_inverse, rule ballI)
  fix i assume "i \<in> set (uniq (map mo_id options @ map cm_id customs))"
  then have "merged_entry fmt options customs i \<noteq> None"
    by (simp add: merged_entry_None)
  then show "\<exists>y. merged_entry fmt options customs i = Some y \<and> mo_id y = i"
    using merged_entry_id by fastforce
qed

lemma in_merge_spec:
  "r \<in> set (merge_spec fmt options customs) \<longleftrightarrow>
     merged_entry fmt options customs (mo_id r) = Some r"
proof
  assume "r \<in> set (merge_spec fmt options customs)"
  then obtain i where "merged_entry fmt options customs i = Some r"
    by (auto simp: merge_spec_def set_map_filter)
  then show "merged_entry fmt options customs (mo_id r) = Some r"
    using merged_entry_id by fastforce
next
  assume *: "merged_entry fmt options customs (mo_id r) = Some r"
  then have "mo_id r \<in> mo_id ` set options \<union> cm_id ` set customs"
    using merged_entry_None [of fmt options customs "mo_id r"] by auto
  with * show "r \<in> set (merge_spec fmt options customs)"
    by (auto simp: merge_spec_def set_map_filter)
qed

lemma find_distinct:
  "distinct (map f xs) \<Longrightarrow> x \<in> set xs \<Longrightarrow> find (\<lambda>y. f y = f x) xs = Some x"
  by (induction xs) (auto simp: image_iff)

lemma find_merge_spec:
  "find (\<lambda>r. mo_id r = i) (merge_spec fmt options customs) = merged_entry fmt options customs i"
proof (cases "merged_entry fmt options customs i")
  case None
  then have "\<forall>r \<in> set (merge_spec fmt options customs). mo_id r \<noteq> i"
    by (auto simp: in_merge_spec)
  then show ?thesis
    using None by (simp add: find_None_iff)
next
  case (Some r)
  then have r: "r \<in> set (merge_spec fmt options customs)" and i: "mo_id r = i"
    using merged_entry_id [OF Some] by (simp_all add: in_merge_spec)
  have "distinct (map mo_id (merge_spec fmt options customs))"
    by (simp add: ids_merge_spec)
  from find_distinct [OF this r] show ?thesis
    using Some i by simp
qed

lemma find_last_distinct:
  "distinct (map f xs) \<Longrightarrow> x \<in> set xs \<Longrightarrow> find_last (\<lambda>y. f y = f x) xs = Some x"
proof (induction xs)
  case Nil
  then show ?case by simp
next
  case (Cons a xs)
  show ?case
  proof (cases "x = a")
    case True
    with Cons.prems have "\<forall>y \<in> set xs. f y \<noteq> f x"
      by (auto simp: image_iff)
    then have "find_last (\<lambda>y. f y = f x) xs = None"
      by (simp add: find_last_None)
    with True show ?thesis by simp
  next
    case False
    with Cons show ?thesis by simp
  qed
qed

lemma filter_map_filter:
  "filter P (List.map_filter f xs) = List.map_filter (\<lambda>x. case f x of None \<Rightarrow> None | Some y \<Rightarrow> if P y then Some y else None) xs"
  by (induction xs) (auto simp: map_filter_simps split: option.splits)

lemma map_filter_None: "\<forall>x \<in> set xs. f x = None \<Longrightarrow> List.map_filter f xs = []"
  by (induction xs) (auto simp: map_filter_simps)

lemma map_filter_append: "List.map_filter f (xs @ ys) = List.map_filter f xs @ List.map_filter f ys"
  by (simp add: List.map_filter_def)

lemma map_filter_map_eq:
  "\<forall>b \<in> set bs. f (k b) = (if Q b then Some (g b) else None) \<Longrightarrow>
     List.map_filter f (map k bs) = map g (filter Q bs)"
  by (induction bs) (auto simp: map_filter_simps)

lemma kept_standard_models:
  assumes "distinct (map mo_id options)"
  shows "filter (\<lambda>r. mo_id r \<notin> cm_id ` set customs) (merge_spec fmt options customs) =
    map (\<lambda>b. b\<lparr>mo_isCustom := False\<rparr>) (filter (\<lambda>b. mo_id b \<notin> cm_id ` set customs) options)"
proof -
  let ?P = "\<lambda>r. mo_id r \<notin> cm_id ` set customs"
  let ?f = "\<lambda>x. case merged_entry fmt options customs x of None \<Rightarrow> None
              | Some y \<Rightarrow> if ?P y then Some y else None"
  have ids: "uniq (map mo_id options @ map cm_id customs) =
      map mo_id options @ filter (\<lambda>i. i \<notin> set (map mo_id options)) (uniq (map cm_id customs))"
    using assms by (simp add: uniq_append uniq_distinct)
  have 1: "List.map_filter ?f (map mo_id options) =
      map (\<lambda>b. b\<lparr>mo_isCustom := False\<rparr>) (filter (\<lambda>b. mo_id b \<notin> cm_id ` set customs) options)"
  proof (rule map_filter_map_eq, rule ballI)
    fix b assume b: "b \<in> set options"
    show "?f (mo_id b) = (if mo_id b \<notin> cm_id ` set customs then Some (b\<lparr>mo_isCustom := False\<rparr>) else None)"
    proof (cases "find_last (\<lambda>c. cm_id c = mo_id b) customs")
      case None
      then have "mo_id b \<notin> cm_id ` set customs"
        by (auto simp: find_last_None)
      then show ?thesis
        using None find_last_distinct [OF assms b] by (simp add: merged_entry_def)
    next
      case (Some c)
      then have "mo_id b \<in> cm_id ` set customs"
        by (rule find_last_Some_image)
      then show ?thesis
        using Some find_last_distinct [OF assms b] by (simp add: merged_entry_def)
    qed
  qed
  have 2: "List.map_filter ?f (filter (\<lambda>i. i \<notin> set (map mo_id options)) (uniq (map cm_id customs))) = []"
  proof (rule map_filter_None, rule ballI)
    fix i assume "i \<in> set (filter (\<lambda>i. i \<notin> set (map mo_id options)) (uniq (map cm_id customs)))"
    then have "i \<in> cm_id ` set customs" by auto
    then show "?f i = None"
      by (auto split: option.splits dest: merged_entry_id)
  qed
  have "filter ?P (merge_spec fmt options customs) =
      List.map_filter ?f (uniq (map mo_id options @ map cm_id customs))"
    by (simp only: merge_spec_def filter_map_filter)
  also have "\<dots> = List.map_filter ?f (map mo_id options) @
      List.map_filter ?f (filter (\<lambda>i. i \<notin> set (map mo_id options)) (uniq (map cm_id customs)))"
    by (simp only: ids map_filter_append)
  also have "\<dots> = map (\<lambda>b. b\<lparr>mo_isCustom := False\<rparr>)
      (filter (\<lambda>b. mo_id b \<notin> cm_id ` set customs) options)"
    by (simp only: 1 2 append_Nil2)
  finally show ?thesis .
qed

lemma custom_flag_merge_spec:
  "(case find (\<lambda>r. mo_id r = i) (merge_spec fmt options customs) of None \<Rightarrow> False | Some r \<Rightarrow> mo_isCustom r)
     \<longleftrightarrow> i \<in> cm_id ` set customs"
proof (cases "find_last (\<lambda>c. cm_id c = i) customs")
  case None
  then have "i \<notin> cm_id ` set customs"
    by (auto simp: find_last_None)
  then show ?thesis
    using None by (auto simp: find_merge_spec merged_entry_def split: option.splits)
next
  case (Some c)
  then have "i \<in> cm_id ` set customs"
    by (rule find_last_Some_image)
  then show ?thesis
    using Some by (auto simp: find_merge_spec merged_entry_def modelToSet_def split: option.splits)
qed


lemma js_a_b [simp]: "js ''a'' \<noteq> js ''b''" "js ''b'' \<noteq> js ''a''"
  by (simp_all add: js_def)

text \<open>
  Claim C2, as stated: for an id in both lists the entry of the merged catalog has the label of
  the custom entry. It has not where that label is empty: the label is then the one generated
  from the id.
\<close>

theorem enhancedModelOptions_empty_label_counterexample:
  "enhancedModelOptions (\<lambda>i. js ''B'')
     [\<lparr>mo_id = js ''b'', mo_label = js ''Built-in'', mo_requiresSubscription = True,
       mo_top = False, mo_isCustom = False\<rparr>]
     [\<lparr>cm_id = js ''b'', cm_label = [], cm_apiKey = None, cm_apiBase = None\<rparr>] =
   [\<lparr>mo_id = js ''b'', mo_label = js ''B'', mo_requiresSubscription = True,
     mo_top = False, mo_isCustom = True\<rparr>] \<and>
   js ''B'' \<noteq> cm_label \<lparr>cm_id = js ''b'', cm_label = [], cm_apiKey = None, cm_apiBase = None\<rparr>"
  by (simp add: enhancedModelOptions_def add_standard_def add_custom_def map_get_def
      map_values_def modelToSet_def) (simp add: js_def)

text \<open>
  Claim C2, amended: the merged catalog is the catalog of the specification above. Every id of
  the two lists is in it once; the ids of the built-in list come first, in the order of their
  first occurrence, and behind them the ids of the custom list that no built-in entry has. An
  entry whose id a custom entry has is flagged custom and has the label of that custom entry
  or, where that label is empty, the label generated from the id. An entry whose id no built-in
  entry has is the custom entry as a descriptor. Where the built-in ids are distinct, the
  built-in entries whose id no custom entry has are kept in their order and are not flagged
  custom. Built-in \<open>a\<close> and \<open>b\<close> with the custom entry \<open>b\<close> labelled \<open>B2\<close> give two
  entries: \<open>a\<close> as it was, and \<open>b\<close> with the label \<open>B2\<close> and flagged custom.
\<close>

theorem enhancedModelOptions_merge:
  "enhancedModelOptions fmt options customs = merge_spec fmt options customs \<and>
   distinct (map mo_id (enhancedModelOptions fmt options customs)) \<and>
   set (map mo_id (enhancedModelOptions fmt options customs)) =
     mo_id ` set options \<union> cm_id ` set customs \<and>
   map mo_id (enhancedModelOptions fmt options customs) =
     uniq (map mo_id options) @
     filter (\<lambda>i. i \<notin> mo_id ` set options) (uniq (map cm_id customs)) \<and>
   (\<forall>r \<in> set (enhancedModelOptions fmt options customs). \<forall>c.
      find_last (\<lambda>c. cm_id c = mo_id r) customs = Some c \<longrightarrow>
        mo_isCustom r \<and>
        mo_label r = (if cm_label c \<noteq> [] then cm_label c else fmt (cm_id c))) \<and>
   (\<forall>r \<in> set (enhancedModelOptions fmt options customs).
      mo_id r \<notin> mo_id ` set options \<longrightarrow> (\<exists>c \<in> set customs. r = modelToSet fmt c)) \<and>
   (distinct (map mo_id options) \<longrightarrow>
      filter (\<lambda>r. mo_id r \<notin> cm_id ` set customs) (enhancedModelOptions fmt options customs) =
      map (\<lambda>b. b\<lparr>mo_isCustom := False\<rparr>)
        (filter (\<lambda>b. mo_id b \<notin> cm_id ` set customs) options)) \<and>
   enhancedModelOptions fmt
     [\<lparr>mo_id = js ''a'', mo_label = la, mo_requiresSubscription = ra, mo_top = ta,
       mo_isCustom = False\<rparr>,
      \<lparr>mo_id = js ''b'', mo_label = lb, mo_requiresSubscription = rb, mo_top = tb,
       mo_isCustom = False\<rparr>]
     [\<lparr>cm_id = js ''b'', cm_label = js ''B2'', cm_apiKey = k, cm_apiBase = u\<rparr>] =
     [\<lparr>mo_id = js ''a'', mo_label = la, mo_requiresSubscription = ra, mo_top = ta,
       mo_isCustom = False\<rparr>,
      \<lparr>mo_id = js ''b'', mo_label = js ''B2'', mo_requiresSubscription = rb, mo_top = tb,
       mo_isCustom = True\<rparr>]"
proof (intro conjI ballI allI impI)
  let ?R = "enhancedModelOptions fmt options customs"
  show eq: "?R = merge_spec fmt options customs"
    by (rule enhancedModelOptions_eq_merge_spec)
  show "distinct (map mo_id ?R)"
    by (simp add: eq ids_merge_spec)
  show "set (map mo_id ?R) = mo_id ` set options \<union> cm_id ` set customs"
    by (simp add: eq ids_merge_spec)
  show "map mo_id ?R = uniq (map mo_id options) @
     filter (\<lambda>i. i \<notin> mo_id ` set options) (uniq (map cm_id customs))"
    by (simp add: eq ids_merge_spec uniq_append)
  show "mo_isCustom r" and "mo_label r = (if cm_label c \<noteq> [] then cm_label c else fmt (cm_id c))"
    if "r \<in> set ?R" "find_last (\<lambda>c. cm_id c = mo_id r) customs = Some c" for r c
    using that by (auto simp: eq in_merge_spec merged_entry_def modelToSet_def split: option.splits)
  show "\<exists>c \<in> set customs. r = modelToSet fmt c"
    if "r \<in> set ?R" "mo_id r \<notin> mo_id ` set options" for r
  proof -
    from that(1) have m: "merged_entry fmt options customs (mo_id r) = Some r"
      by (simp add: eq in_merge_spec)
    from that(2) have "\<forall>b \<in> set options. mo_id b \<noteq> mo_id r"
      by (metis imageI)
    then have n: "find_last (\<lambda>b. mo_id b = mo_id r) options = None"
      by (simp add: find_last_None)
    from m n obtain c where "find_last (\<lambda>c. cm_id c = mo_id r) customs = Some c"
      "r = modelToSet fmt c"
      by (auto simp: merged_entry_def split: option.splits)
    then show ?thesis
      using find_last_Some by fastforce
  qed
  show "filter (\<lambda>r. mo_id r \<notin> cm_id ` set customs) ?R =
      map (\<lambda>b. b\<lparr>mo_isCustom := False\<rparr>) (filter (\<lambda>b. mo_id b \<notin> cm_id ` set customs) options)"
    if "distinct (map mo_id options)"
    using that by (simp only: eq kept_standard_models)
  show "enhancedModelOptions fmt
     [\<lparr>mo_id = js ''a'', mo_label = la, mo_requiresSubscription = ra, mo_top = ta,
       mo_isCustom = False\<rparr>,
      \<lparr>mo_id = js ''b'', mo_label = lb, mo_requiresSubscription = rb, mo_top = tb,
       mo_isCustom = False\<rparr>]
     [\<lparr>cm_id = js ''b'', cm_label = js ''B2'', cm_apiKey = k, cm_apiBase = u\<rparr>] =
     [\<lparr>mo_id = js ''a'', mo_label = la, mo_requiresSubscription = ra, mo_top = ta,
       mo_isCustom = False\<rparr>,
      \<lparr>mo_id = js ''b'', mo_label = js ''B2'', mo_requiresSubscription = rb, mo_top = tb,
       mo_isCustom = True\<rparr>]"
    by (simp add: enhancedModelOptions_def add_standard_def add_custom_def map_get_def
      map_values_def modelToSet_def) (simp add: js_def)
qed


lemmas sample_defs =
  sample_options_def sample_customs_def sample_env_def sample_props_def sample_state_def

lemma sample_catalog:
  "enhancedModelOptions (\<lambda>i. js ''Model '' @ i) sample_options sample_customs =
     [\<lparr>mo_id = js ''a'', mo_label = js ''A'', mo_requiresSubscription = False, mo_top = False,
       mo_isCustom = False\<rparr>,
      \<lparr>mo_id = js ''b'', mo_label = js ''B2'', mo_requiresSubscription = True, mo_top = False,
       mo_isCustom = True\<rparr>,
      \<lparr>mo_id = js ''c'', mo_label = js ''C'', mo_requiresSubscription = True, mo_top = False,
       mo_isCustom = False\<rparr>,
      \<lparr>mo_id = js ''n'', mo_label = js ''Model n'', mo_requiresSubscription = False,
       mo_top = False, mo_isCustom = True\<rparr>]"
  by (simp add: sample_defs enhancedModelOptions_def add_standard_def add_custom_def
      map_get_def map_values_def modelToSet_def) (simp add: js_def)

theorem enhancedModelOptions_merge_witness:
  "distinct (map mo_id sample_options) \<and>
   \<lparr>mo_id = js ''b'', mo_label = js ''B2'', mo_requiresSubscription = True, mo_top = False,
     mo_isCustom = True\<rparr>
     \<in> set (enhancedModelOptions (\<lambda>i. js ''Model '' @ i) sample_options sample_customs) \<and>
   find_last (\<lambda>c. cm_id c = js ''b'') sample_customs =
     Some \<lparr>cm_id = js ''b'', cm_label = js ''B2'', cm_apiKey = None, cm_apiBase = None\<rparr> \<and>
   \<lparr>mo_id = js ''n'', mo_label = js ''Model n'', mo_requiresSubscription = False,
     mo_top = False, mo_isCustom = True\<rparr>
     \<in> set (enhancedModelOptions (\<lambda>i. js ''Model '' @ i) sample_options sample_customs) \<and>
   js ''n'' \<notin> mo_id ` set sample_options \<and>
   (\<exists>c \<in> set sample_customs.
      \<lparr>mo_id = js ''n'', mo_label = js ''Model n'', mo_requiresSubscription = False,
        mo_top = False, mo_isCustom = True\<rparr> = modelToSet (\<lambda>i. js ''Model '' @ i) c) \<and>
   filter (\<lambda>r. mo_id r \<notin> cm_id ` set sample_customs)
     (enhancedModelOptions (\<lambda>i. js ''Model '' @ i) sample_options sample_customs) =
     map (\<lambda>b. b\<lparr>mo_isCustom := False\<rparr>)
       (filter (\<lambda>b. mo_id b \<notin> cm_id ` set sample_customs) sample_options)"
proof -
  let ?fmt = "\<lambda>i. js ''Model '' @ i"
  let ?n = "\<lparr>mo_id = js ''n'', mo_label = js ''Model n'', mo_requiresSubscription = False,
     mo_top = False, mo_isCustom = True\<rparr>"
  note t = enhancedModelOptions_merge [of ?fmt sample_options sample_customs]
  have d: "distinct (map mo_id sample_options)"
    by (simp add: sample_defs js_def)
  have n: "?n \<in> set (enhancedModelOptions ?fmt sample_options sample_customs)"
    by (simp add: sample_catalog)
  have b: "\<lparr>mo_id = js ''b'', mo_label = js ''B2'', mo_requiresSubscription = True,
      mo_top = False, mo_isCustom = True\<rparr>
     \<in> set (enhancedModelOptions ?fmt sample_options sample_customs)"
    by (simp add: sample_catalog)
  have f: "find_last (\<lambda>c. cm_id c = js ''b'') sample_customs =
     Some \<lparr>cm_id = js ''b'', cm_label = js ''B2'', cm_apiKey = None, cm_apiBase = None\<rparr>"
    by (simp add: sample_defs js_def)
  have m: "mo_id ?n \<notin> mo_id ` set sample_options"
    by (simp add: sample_defs js_def)
  from t n m have "\<exists>c \<in> set sample_customs. ?n = modelToSet ?fmt c"
    by blast
  moreover from t d have "filter (\<lambda>r. mo_id r \<notin> cm_id ` set sample_customs)
     (enhancedModelOptions ?fmt sample_options sample_customs) =
     map (\<lambda>b. b\<lparr>mo_isCustom := False\<rparr>)
       (filter (\<lambda>b. mo_id b \<notin> cm_id ` set sample_customs) sample_options)"
    by blast
  ultimately show ?thesis
    using d n b f m by simp
qed

subsection \<open>The handlers\<close>

lemma effects_emit [simp]: "effects (emit x s) = effects s @ [x]"
  by (simp add: emit_def)

lemma customModels_emit [simp]: "customModels (emit x s) = customModels s"
  by (simp add: emit_def)

lemma selection_changes_append [simp]:
  "selection_changes (xs @ ys) = selection_changes xs @ selection_changes ys"
  by (simp add: selection_changes_def)

lemma storage_writes_append [simp]:
  "storage_writes (xs @ ys) = storage_writes xs @ storage_writes ys"
  by (simp add: storage_writes_def)

lemma access_checks_append [simp]:
  "access_checks (xs @ ys) = access_checks xs @ access_checks ys"
  by (simp add: access_checks_def)

lemma observations_Nil [simp]:
  "selection_changes [] = []" "access_checks [] = []" "storage_writes [] = []"
  by (simp_all add: selection_changes_def access_checks_def storage_writes_def)

lemma observations_Cons [simp]:
  "selection_changes (x # xs) =
     (case x of OnModelChange i \<Rightarrow> [i] | _ \<Rightarrow> []) @ selection_changes xs"
  "access_checks (x # xs) =
     (case x of CanAccessModel i \<Rightarrow> [i] | _ \<Rightarrow> []) @ access_checks xs"
  "storage_writes (x # xs) =
     (case x of SaveCustomModels _ \<Rightarrow> [x] | SetItem _ _ \<Rightarrow> [x] | _ \<Rightarrow> []) @
     storage_writes xs"
  by (simp_all add: selection_changes_def access_checks_def storage_writes_def
      split: effect.splits)

lemma isCustomModel_iff:
  "(case find (\<lambda>opt. mo_id opt = i) (enhancedModelOptions fmt options customs) of
      None \<Rightarrow> False | Some opt \<Rightarrow> mo_isCustom opt) \<longleftrightarrow> i \<in> cm_id ` set customs"
  by (simp only: enhancedModelOptions_eq_merge_spec custom_flag_merge_spec)

lemma handleSelect_custom:
  "i \<in> cm_id ` set (customModels s) \<Longrightarrow>
     handleSelect e p i s = s\<lparr>isOpen := False, effects := effects s @ [OnModelChange i]\<rparr>"
  unfolding handleSelect_def Let_def isCustomModel_iff by (simp add: emit_def)

lemma handleSelect_standard:
  "i \<notin> cm_id ` set (customModels s) \<Longrightarrow>
     handleSelect e p i s =
       (if canAccessModel p i
        then s\<lparr>isOpen := False, effects := effects s @ [CanAccessModel i, OnModelChange i]\<rparr>
        else s\<lparr>lockedModel := Some i, paywallOpen := True,
               effects := effects s @ [CanAccessModel i]\<rparr>)"
  unfolding handleSelect_def Let_def isCustomModel_iff by (simp add: emit_def)

text \<open>
  Claim C3: a selection of an id of a custom model calls \<open>onModelChange\<close> and closes the
  dropdown without a call of \<open>canAccessModel\<close>; for any other id \<open>canAccessModel\<close> is called,
  and where it grants access the selection is made and the dropdown closed, and where it does
  not, the locked model is set to the id and the paywall opened, with no selection and the
  dropdown left as it is.
\<close>

theorem handleSelect_gating:
  "(i \<in> cm_id ` set (customModels s) \<longrightarrow>
      handleSelect e p i s = s\<lparr>isOpen := False, effects := effects s @ [OnModelChange i]\<rparr> \<and>
      access_checks (effects (handleSelect e p i s)) = access_checks (effects s)) \<and>
   (i \<notin> cm_id ` set (customModels s) \<and> canAccessModel p i \<longrightarrow>
      handleSelect e p i s =
        s\<lparr>isOpen := False, effects := effects s @ [CanAccessModel i, OnModelChange i]\<rparr>) \<and>
   (i \<notin> cm_id ` set (customModels s) \<and> \<not> canAccessModel p i \<longrightarrow>
      handleSelect e p i s =
        s\<lparr>lockedModel := Some i, paywallOpen := True,
          effects := effects s @ [CanAccessModel i]\<rparr> \<and>
      selection_changes (effects (handleSelect e p i s)) = selection_changes (effects s) \<and>
      isOpen (handleSelect e p i s) = isOpen s)"
  by (simp add: handleSelect_custom handleSelect_standard)

lemma sample_custom_ids: "cm_id ` set (customModels sample_state) = {js ''b'', js ''n''}"
  by (simp add: sample_defs)

lemma sample_ids_distinct [simp]:
  "js ''a'' \<noteq> js ''n''" "js ''c'' \<noteq> js ''b''" "js ''c'' \<noteq> js ''n''" "js ''c'' \<noteq> js ''a''"
  "js ''b'' \<noteq> js ''n''" "js ''n'' \<noteq> js ''b''"
  by (simp_all add: js_def)

theorem handleSelect_gating_witness:
  "js ''b'' \<in> cm_id ` set (customModels sample_state) \<and>
   handleSelect sample_env sample_props (js ''b'') sample_state =
     sample_state\<lparr>isOpen := False, effects := [OnModelChange (js ''b'')]\<rparr> \<and>
   js ''a'' \<notin> cm_id ` set (customModels sample_state) \<and>
   canAccessModel sample_props (js ''a'') \<and>
   handleSelect sample_env sample_props (js ''a'') sample_state =
     sample_state\<lparr>isOpen := False,
       effects := [CanAccessModel (js ''a''), OnModelChange (js ''a'')]\<rparr> \<and>
   js ''c'' \<notin> cm_id ` set (customModels sample_state) \<and>
   \<not> canAccessModel sample_props (js ''c'') \<and>
   handleSelect sample_env sample_props (js ''c'') sample_state =
     sample_state\<lparr>lockedModel := Some (js ''c''), paywallOpen := True,
       effects := [CanAccessModel (js ''c'')]\<rparr>"
proof -
  have e: "effects sample_state = []"
    by (simp add: sample_state_def)
  have c: "canAccessModel sample_props (js ''a'')" "\<not> canAccessModel sample_props (js ''c'')"
    by (simp_all add: sample_props_def)
  show ?thesis
    using handleSelect_gating [of "js ''b''" sample_state sample_env sample_props]
      handleSelect_gating [of "js ''a''" sample_state sample_env sample_props]
      handleSelect_gating [of "js ''c''" sample_state sample_env sample_props]
    by (simp add: sample_custom_ids e c)
qed

lemma key_names [simp]:
  "js ''Enter'' \<noteq> js ''ArrowDown''" "js ''Enter'' \<noteq> js ''ArrowUp''"
  by (simp_all add: js_def)

text \<open>
  Claim C9: \<open>Enter\<close> with a negative highlighted index only stops the propagation of the
  event: the state is as before, nothing is selected and no access is checked. With an index
  inside the filtered list it selects the entry there; with an index behind the list it
  selects nothing.
\<close>

theorem enter_needs_highlighted_entry:
  "(highlightedIndex s < 0 \<longrightarrow>
      handleSearchInputKeyDown e p (js ''Enter'') s = emit StopPropagation s \<and>
      selection_changes (effects (handleSearchInputKeyDown e p (js ''Enter'') s)) =
        selection_changes (effects s) \<and>
      access_checks (effects (handleSearchInputKeyDown e p (js ''Enter'') s)) =
        access_checks (effects s)) \<and>
   (0 \<le> highlightedIndex s \<and> highlightedIndex s < int (length (filteredOptions e p s)) \<longrightarrow>
      handleSearchInputKeyDown e p (js ''Enter'') s =
        handleSelect e p (mo_id (filteredOptions e p s ! nat (highlightedIndex s)))
          (emit PreventDefault (emit StopPropagation s))) \<and>
   (int (length (filteredOptions e p s)) \<le> highlightedIndex s \<longrightarrow>
      handleSearchInputKeyDown e p (js ''Enter'') s =
        emit PreventDefault (emit StopPropagation s))"
  by (auto simp: handleSearchInputKeyDown_def option_at_def Let_def)

lemma str_includes_Nil [simp]: "str_includes s []"
  by (cases s) simp_all

lemma filteredOptions_no_query:
  "toLowerCase e (searchQuery s) = [] \<Longrightarrow>
     filteredOptions e p s =
       enhancedModelOptions (formatModelName e) (modelOptions p) (customModels s)"
  by (simp add: filteredOptions_def)

lemma sample_filteredOptions:
  "filteredOptions sample_env sample_props (sample_state\<lparr>highlightedIndex := i\<rparr>) =
     enhancedModelOptions (\<lambda>i. js ''Model '' @ i) sample_options sample_customs"
  by (subst filteredOptions_no_query)
    (simp_all add: sample_env_def sample_props_def sample_state_def ascii_lower_def)

theorem enter_needs_highlighted_entry_witness:
  "highlightedIndex sample_state < 0 \<and>
   handleSearchInputKeyDown sample_env sample_props (js ''Enter'') sample_state =
     emit StopPropagation sample_state \<and>
   0 \<le> highlightedIndex (sample_state\<lparr>highlightedIndex := 1\<rparr>) \<and>
   highlightedIndex (sample_state\<lparr>highlightedIndex := 1\<rparr>) <
     int (length (filteredOptions sample_env sample_props
       (sample_state\<lparr>highlightedIndex := 1\<rparr>))) \<and>
   handleSearchInputKeyDown sample_env sample_props (js ''Enter'')
     (sample_state\<lparr>highlightedIndex := 1\<rparr>) =
     sample_state\<lparr>highlightedIndex := 1, isOpen := False,
       effects := [StopPropagation, PreventDefault, OnModelChange (js ''b'')]\<rparr> \<and>
   int (length (filteredOptions sample_env sample_props
     (sample_state\<lparr>highlightedIndex := 4\<rparr>))) \<le>
     highlightedIndex (sample_state\<lparr>highlightedIndex := 4\<rparr>) \<and>
   handleSearchInputKeyDown sample_env sample_props (js ''Enter'')
     (sample_state\<lparr>highlightedIndex := 4\<rparr>) =
     sample_state\<lparr>highlightedIndex := 4, effects := [StopPropagation, PreventDefault]\<rparr>"
proof -
  have h: "highlightedIndex sample_state < 0" "effects sample_state = []"
    by (simp_all add: sample_state_def)
  have c: "js ''b'' \<in> cm_id ` set (customModels (emit PreventDefault (emit StopPropagation
      (sample_state\<lparr>highlightedIndex := 1\<rparr>))))"
    by (simp add: sample_state_def sample_customs_def)
  have s: "handleSelect sample_env sample_props (js ''b'')
      (emit PreventDefault (emit StopPropagation (sample_state\<lparr>highlightedIndex := 1\<rparr>))) =
     sample_state\<lparr>highlightedIndex := 1, isOpen := False,
       effects := [StopPropagation, PreventDefault, OnModelChange (js ''b'')]\<rparr>"
    by (simp add: handleSelect_custom [OF c] h) (simp add: emit_def h)
  show ?thesis
    using enter_needs_highlighted_entry [of sample_state sample_env sample_props]
      enter_needs_highlighted_entry
        [of "sample_state\<lparr>highlightedIndex := 1\<rparr>" sample_env sample_props]
      enter_needs_highlighted_entry
        [of "sample_state\<lparr>highlightedIndex := 4\<rparr>" sample_env sample_props]
    by (simp add: h sample_filteredOptions sample_catalog s) (simp add: emit_def h)
qed

lemma remove_first_prefix: "startsWith s pat \<Longrightarrow> remove_first pat s = drop (length pat) s"
  by (cases s) auto

lemma remove_openrouter:
  assumes "startsWith s (js ''openrouter/'')"
  shows "remove_first (js ''openrouter/'') s = drop 11 s"
proof -
  have "length (js ''openrouter/'') = 11"
    by (simp add: js_def)
  with remove_first_prefix [OF assms] show ?thesis
    by (simp only:)
qed

lemma duplicate_id_code:
  "list_ex (\<lambda>m. cm_id m = i \<and> (dialogMode s = Add \<or> Some (cm_id m) \<noteq> editingModelId s))
     (customModels s) = duplicate_id s i"
  unfolding duplicate_id_def list_ex_iff by (cases "dialogMode s") auto

lemma handleSaveCustomModel_accept:
  assumes "trim (fd_id fd) \<noteq> []" "\<not> duplicate_id s (trim (fd_id fd))"
  shows "customModels (handleSaveCustomModel e p fd s) = saved_models e fd s"
    and "SaveCustomModels (saved_models e fd s) \<in> set (effects (handleSaveCustomModel e p fd s))"
  using assms
  by (auto simp: handleSaveCustomModel_def duplicate_id_code Let_def saved_models_def
      saved_model_def remove_openrouter closeCustomModelDialog_def change_and_store_def)

lemma handleSaveCustomModel_reject:
  assumes "trim (fd_id fd) \<noteq> []" "duplicate_id s (trim (fd_id fd))"
  shows "handleSaveCustomModel e p fd s = emit ConsoleError s"
  using assms by (simp add: handleSaveCustomModel_def duplicate_id_code Let_def)

text \<open>
  Claim C5: the save trims the id and the label; with an empty trimmed id it does nothing at
  all; with a trimmed id that a custom entry other than the edited one has, it only logs an
  error: the custom models are as before, nothing is written to storage and nothing is
  selected. Otherwise the custom models become the ones of the specification, whose new entry
  has the trimmed id and, where it is not empty, the trimmed label.
\<close>

theorem handleSaveCustomModel_rejects_duplicates:
  "(trim (fd_id fd) = [] \<longrightarrow> handleSaveCustomModel e p fd s = s) \<and>
   (trim (fd_id fd) \<noteq> [] \<and> duplicate_id s (trim (fd_id fd)) \<longrightarrow>
      handleSaveCustomModel e p fd s = emit ConsoleError s \<and>
      customModels (handleSaveCustomModel e p fd s) = customModels s \<and>
      storage_writes (effects (handleSaveCustomModel e p fd s)) = storage_writes (effects s) \<and>
      selection_changes (effects (handleSaveCustomModel e p fd s)) =
        selection_changes (effects s)) \<and>
   (trim (fd_id fd) \<noteq> [] \<and> \<not> duplicate_id s (trim (fd_id fd)) \<longrightarrow>
      customModels (handleSaveCustomModel e p fd s) = saved_models e fd s \<and>
      cm_id (saved_model e fd) = trim (fd_id fd) \<and>
      (trim (fd_label fd) \<noteq> [] \<longrightarrow> cm_label (saved_model e fd) = trim (fd_label fd)))"
proof (intro conjI impI)
  assume "trim (fd_id fd) = []"
  then show "handleSaveCustomModel e p fd s = s"
    by (simp add: handleSaveCustomModel_def)
next
  assume a: "trim (fd_id fd) \<noteq> [] \<and> duplicate_id s (trim (fd_id fd))"
  then have r: "handleSaveCustomModel e p fd s = emit ConsoleError s"
    by (simp add: handleSaveCustomModel_reject)
  show "handleSaveCustomModel e p fd s = emit ConsoleError s"
    by (rule r)
  show "customModels (handleSaveCustomModel e p fd s) = customModels s"
    by (simp add: r)
  show "storage_writes (effects (handleSaveCustomModel e p fd s)) = storage_writes (effects s)"
    by (simp add: r)
  show "selection_changes (effects (handleSaveCustomModel e p fd s)) =
      selection_changes (effects s)"
    by (simp add: r)
next
  assume "trim (fd_id fd) \<noteq> [] \<and> \<not> duplicate_id s (trim (fd_id fd))"
  then show "customModels (handleSaveCustomModel e p fd s) = saved_models e fd s"
    by (simp add: handleSaveCustomModel_accept)
next
  show "cm_id (saved_model e fd) = trim (fd_id fd)"
    by (simp add: saved_model_def)
next
  assume "trim (fd_label fd) \<noteq> []"
  then show "cm_label (saved_model e fd) = trim (fd_label fd)"
    by (simp add: saved_model_def)
qed

lemma trim_examples:
  "trim (js '' b '') = js ''b''" "trim (js ''  '') = []"
  "trim (js '' openrouter/x '') = js ''openrouter/x''" "trim [] = []"
  "trim (js ''new'') = js ''new''" "trim (js '' L '') = js ''L''"
  by (simp_all add: trim_def js_def is_white_space_def)

theorem handleSaveCustomModel_rejects_duplicates_witness:
  "trim (fd_id \<lparr>fd_id = js ''  '', fd_label = js ''x'', fd_apiKey = [], fd_apiBase = []\<rparr>) = [] \<and>
   handleSaveCustomModel sample_env sample_props
     \<lparr>fd_id = js ''  '', fd_label = js ''x'', fd_apiKey = [], fd_apiBase = []\<rparr> sample_state =
     sample_state \<and>
   trim (fd_id \<lparr>fd_id = js '' b '', fd_label = js ''x'', fd_apiKey = [], fd_apiBase = []\<rparr>) \<noteq> [] \<and>
   duplicate_id sample_state (js ''b'') \<and>
   handleSaveCustomModel sample_env sample_props
     \<lparr>fd_id = js '' b '', fd_label = js ''x'', fd_apiKey = [], fd_apiBase = []\<rparr> sample_state =
     sample_state\<lparr>effects := [ConsoleError]\<rparr> \<and>
   \<not> duplicate_id sample_state (js ''new'') \<and>
   customModels (handleSaveCustomModel sample_env sample_props
     \<lparr>fd_id = js ''new'', fd_label = js '' L '', fd_apiKey = [], fd_apiBase = []\<rparr> sample_state) =
     sample_customs @
     [\<lparr>cm_id = js ''new'', cm_label = js ''L'', cm_apiKey = Some [], cm_apiBase = Some []\<rparr>]"
proof -
  let ?f1 = "\<lparr>fd_id = js ''  '', fd_label = js ''x'', fd_apiKey = [], fd_apiBase = []\<rparr>"
  let ?f2 = "\<lparr>fd_id = js '' b '', fd_label = js ''x'', fd_apiKey = [], fd_apiBase = []\<rparr>"
  let ?f3 = "\<lparr>fd_id = js ''new'', fd_label = js '' L '', fd_apiKey = [], fd_apiBase = []\<rparr>"
  have d: "duplicate_id sample_state (js ''b'')" "\<not> duplicate_id sample_state (js ''new'')"
    by (simp_all add: duplicate_id_def sample_state_def sample_customs_def js_def)
  have n: "js ''b'' \<noteq> []" "js ''new'' \<noteq> []" "js ''L'' \<noteq> []" "js ''x'' \<noteq> []"
    by (simp_all add: js_def)
  have m: "dialogMode sample_state = Add" "customModels sample_state = sample_customs"
    "effects sample_state = []"
    by (simp_all add: sample_state_def)
  show ?thesis
    using handleSaveCustomModel_rejects_duplicates [of ?f1 sample_env sample_props sample_state]
      handleSaveCustomModel_rejects_duplicates [of ?f2 sample_env sample_props sample_state]
      handleSaveCustomModel_rejects_duplicates [of ?f3 sample_env sample_props sample_state]
    by (simp add: trim_examples d n m saved_models_def saved_model_def emit_def)
qed

text \<open>
  Claim C10: a save that is accepted and whose label trims to the empty string stores, in the
  state and with \<open>saveCustomModels\<close>, an entry whose id is the trimmed id, with its prefix,
  and whose label is \<open>formatModelName\<close> of the trimmed id without a leading \<open>openrouter/\<close>.
\<close>

theorem handleSaveCustomModel_generated_label:
  "trim (fd_label fd) = [] \<and> trim (fd_id fd) \<noteq> [] \<and> \<not> duplicate_id s (trim (fd_id fd)) \<longrightarrow>
     customModels (handleSaveCustomModel e p fd s) = saved_models e fd s \<and>
     SaveCustomModels (saved_models e fd s) \<in> set (effects (handleSaveCustomModel e p fd s)) \<and>
     cm_id (saved_model e fd) = trim (fd_id fd) \<and>
     cm_label (saved_model e fd) =
       formatModelName e
         (if startsWith (trim (fd_id fd)) (js ''openrouter/'')
          then drop 11 (trim (fd_id fd)) else trim (fd_id fd))"
  by (simp add: handleSaveCustomModel_accept) (simp add: saved_model_def)

theorem handleSaveCustomModel_generated_label_witness:
  "trim (fd_label \<lparr>fd_id = js '' openrouter/x '', fd_label = js ''  '', fd_apiKey = [],
     fd_apiBase = []\<rparr>) = [] \<and>
   trim (fd_id \<lparr>fd_id = js '' openrouter/x '', fd_label = js ''  '', fd_apiKey = [],
     fd_apiBase = []\<rparr>) \<noteq> [] \<and>
   \<not> duplicate_id sample_state (js ''openrouter/x'') \<and>
   customModels (handleSaveCustomModel sample_env sample_props
     \<lparr>fd_id = js '' openrouter/x '', fd_label = js ''  '', fd_apiKey = [], fd_apiBase = []\<rparr>
     sample_state) =
     sample_customs @
     [\<lparr>cm_id = js ''openrouter/x'', cm_label = js ''Model x'', cm_apiKey = Some [],
       cm_apiBase = Some []\<rparr>]"
proof -
  let ?fd = "\<lparr>fd_id = js '' openrouter/x '', fd_label = js ''  '', fd_apiKey = [],
     fd_apiBase = []\<rparr>"
  have d: "\<not> duplicate_id sample_state (js ''openrouter/x'')"
    by (simp add: duplicate_id_def sample_state_def sample_customs_def js_def)
  have n: "js ''openrouter/x'' \<noteq> []" "startsWith (js ''openrouter/x'') (js ''openrouter/'')"
    "drop 11 (js ''openrouter/x'') = js ''x''" "js ''Model '' @ js ''x'' = js ''Model x''"
    by (simp_all add: js_def)
  have m: "dialogMode sample_state = Add" "customModels sample_state = sample_customs"
    "formatModelName sample_env = (\<lambda>i. js ''Model '' @ i)"
    by (simp_all add: sample_state_def sample_env_def)
  show ?thesis
    using handleSaveCustomModel_generated_label [of ?fd sample_state sample_env sample_props]
    by (simp add: trim_examples d n m saved_models_def saved_model_def)
qed

text \<open>
  Claim C6: a delete of the id that is selected calls \<open>onModelChange\<close> with the fallback and
  issues the write of the fallback under the key of the selection, behind the write of the
  remaining custom models; the fallback is the premium default for the subscription status
  \<open>active\<close> and the free default for any other. A delete of another id selects nothing and
  writes the remaining custom models only.
\<close>

theorem handleDeleteCustomModel_fallback:
  "(selectedModel p = modelId \<longrightarrow>
      selection_changes (effects (handleDeleteCustomModel e p modelId ev s)) =
        selection_changes (effects s) @ [fallback_model e p] \<and>
      storage_writes (effects (handleDeleteCustomModel e p modelId ev s)) =
        storage_writes (effects s) @
        [SaveCustomModels (filter (\<lambda>m. cm_id m \<noteq> modelId) (customModels s)),
         SetItem (STORAGE_KEY_MODEL e) (fallback_model e p)]) \<and>
   (selectedModel p \<noteq> modelId \<longrightarrow>
      selection_changes (effects (handleDeleteCustomModel e p modelId ev s)) =
        selection_changes (effects s) \<and>
      storage_writes (effects (handleDeleteCustomModel e p modelId ev s)) =
        storage_writes (effects s) @
        [SaveCustomModels (filter (\<lambda>m. cm_id m \<noteq> modelId) (customModels s))]) \<and>
   customModels (handleDeleteCustomModel e p modelId ev s) =
     filter (\<lambda>m. cm_id m \<noteq> modelId) (customModels s) \<and>
   (subscriptionStatus p = js ''active'' \<longrightarrow> fallback_model e p = DEFAULT_PREMIUM_MODEL_ID e) \<and>
   (subscriptionStatus p \<noteq> js ''active'' \<longrightarrow> fallback_model e p = DEFAULT_FREE_MODEL_ID e)"
  by (simp add: handleDeleteCustomModel_def change_and_store_def fallback_model_def Let_def)

theorem handleDeleteCustomModel_fallback_witness:
  "selectedModel sample_props = js ''n'' \<and>
   subscriptionStatus sample_props = js ''active'' \<and>
   selection_changes
     (effects (handleDeleteCustomModel sample_env sample_props (js ''n'') True sample_state)) =
     [js ''premium''] \<and>
   storage_writes
     (effects (handleDeleteCustomModel sample_env sample_props (js ''n'') True sample_state)) =
     [SaveCustomModels
        [\<lparr>cm_id = js ''b'', cm_label = js ''B2'', cm_apiKey = None, cm_apiBase = None\<rparr>],
      SetItem (js ''model'') (js ''premium'')] \<and>
   subscriptionStatus (sample_props\<lparr>subscriptionStatus := js ''no_subscription''\<rparr>) \<noteq>
     js ''active'' \<and>
   selection_changes
     (effects (handleDeleteCustomModel sample_env
        (sample_props\<lparr>subscriptionStatus := js ''no_subscription''\<rparr>) (js ''n'') True
        sample_state)) = [js ''free''] \<and>
   selectedModel sample_props \<noteq> js ''b'' \<and>
   selection_changes
     (effects (handleDeleteCustomModel sample_env sample_props (js ''b'') True sample_state)) = []"
proof -
  let ?q = "sample_props\<lparr>subscriptionStatus := js ''no_subscription''\<rparr>"
  have a: "selectedModel sample_props = js ''n''" "subscriptionStatus sample_props = js ''active''"
    "selectedModel ?q = js ''n''" "subscriptionStatus ?q = js ''no_subscription''"
    by (simp_all add: sample_props_def)
  have b: "js ''no_subscription'' \<noteq> js ''active''" "js ''n'' \<noteq> js ''b''"
    by (simp_all add: js_def)
  have c: "effects sample_state = []"
    "filter (\<lambda>m. cm_id m \<noteq> js ''n'') (customModels sample_state) =
      [\<lparr>cm_id = js ''b'', cm_label = js ''B2'', cm_apiKey = None, cm_apiBase = None\<rparr>]"
    by (simp_all add: sample_state_def sample_customs_def js_def)
  have d: "DEFAULT_PREMIUM_MODEL_ID sample_env = js ''premium''"
    "DEFAULT_FREE_MODEL_ID sample_env = js ''free''" "STORAGE_KEY_MODEL sample_env = js ''model''"
    by (simp_all add: sample_env_def)
  show ?thesis
    using handleDeleteCustomModel_fallback [of sample_props "js ''n''" sample_env True sample_state]
      handleDeleteCustomModel_fallback [of ?q "js ''n''" sample_env True sample_state]
      handleDeleteCustomModel_fallback [of sample_props "js ''b''" sample_env True sample_state]
    by (simp add: a b c d)
qed

subsection \<open>The order of the view of all models\<close>

lemma codeunit_compare_refl [simp]: "codeunit_compare x x = 0"
  by (induction x) simp_all

lemma codeunit_compare_range: "codeunit_compare x y \<in> {- 1, 0, 1}"
  by (induction x y rule: codeunit_compare.induct) simp_all

lemma codeunit_compare_antisym: "(codeunit_compare x y < 0) = (0 < codeunit_compare y x)"
  by (induction x y rule: codeunit_compare.induct) auto

lemma codeunit_compare_trans:
  "codeunit_compare x y \<le> 0 \<Longrightarrow> codeunit_compare y z \<le> 0 \<Longrightarrow> codeunit_compare x z \<le> 0"
proof (induction x y arbitrary: z rule: codeunit_compare.induct)
  case 1
  then show ?case by simp
next
  case (2 y ys)
  then show ?case by (cases z) simp_all
next
  case (3 x xs)
  then show ?case by simp
next
  case (4 x xs y ys)
  show ?case
  proof (cases z)
    case Nil
    with 4 show ?thesis by simp
  next
    case (Cons c cs)
    with 4 show ?thesis
      by (auto split: if_splits)
  qed
qed

lemma compare_models_by_class:
  "compare_models e a b =
     (if model_class e a < model_class e b then - 1
      else if model_class e b < model_class e a then 1
      else localeCompare e (mo_label a) (mo_label b))"
  by (auto simp: compare_models_def model_class_def Let_def)

text \<open>
  Claim C7, as stated: the comparator is a strict total order on the displayed entries. It is
  not: two entries of the same class with the same label, here a built-in and a custom model
  both labelled \<open>X\<close>, compare as equal in both directions.
\<close>

theorem compare_models_tie_counterexample:
  "compare_models sample_env
     \<lparr>mo_id = js ''a'', mo_label = js ''X'', mo_requiresSubscription = False, mo_top = False,
       mo_isCustom = False\<rparr>
     \<lparr>mo_id = js ''d'', mo_label = js ''X'', mo_requiresSubscription = False, mo_top = False,
       mo_isCustom = True\<rparr> = 0 \<and>
   compare_models sample_env
     \<lparr>mo_id = js ''d'', mo_label = js ''X'', mo_requiresSubscription = False, mo_top = False,
       mo_isCustom = True\<rparr>
     \<lparr>mo_id = js ''a'', mo_label = js ''X'', mo_requiresSubscription = False, mo_top = False,
       mo_isCustom = False\<rparr> = 0 \<and>
   mo_id \<lparr>mo_id = js ''a'', mo_label = js ''X'', mo_requiresSubscription = False,
     mo_top = False, mo_isCustom = False\<rparr> \<noteq>
   mo_id \<lparr>mo_id = js ''d'', mo_label = js ''X'', mo_requiresSubscription = False,
     mo_top = False, mo_isCustom = True\<rparr>"
  by (simp add: compare_models_by_class model_class_def sample_env_def) (simp add: js_def)

lemma compare_models_le_class:
  "compare_models e a b \<le> 0 \<Longrightarrow> model_class e a \<le> model_class e b"
  by (simp add: compare_models_by_class split: if_splits)

lemma compare_models_trans:
  assumes tr: "\<forall>x y z. localeCompare e x y \<le> 0 \<and> localeCompare e y z \<le> 0 \<longrightarrow>
      localeCompare e x z \<le> 0"
    and ab: "compare_models e a b \<le> 0" and bc: "compare_models e b c \<le> 0"
  shows "compare_models e a c \<le> 0"
proof (cases "model_class e a < model_class e c")
  case True
  then show ?thesis by (simp add: compare_models_by_class)
next
  case False
  with compare_models_le_class [OF ab] compare_models_le_class [OF bc]
  have eq: "model_class e a = model_class e b" "model_class e b = model_class e c"
    by simp_all
  from ab eq have 1: "localeCompare e (mo_label a) (mo_label b) \<le> 0"
    by (simp add: compare_models_by_class)
  from bc eq have 2: "localeCompare e (mo_label b) (mo_label c) \<le> 0"
    by (simp add: compare_models_by_class)
  from tr 1 2 have "localeCompare e (mo_label a) (mo_label c) \<le> 0"
    by blast
  with eq show ?thesis
    by (simp add: compare_models_by_class)
qed

lemma compare_models_antisym:
  assumes "\<forall>x y. (localeCompare e x y < 0) = (0 < localeCompare e y x)"
  shows "(compare_models e a b < 0) = (0 < compare_models e b a)"
  using assms by (simp add: compare_models_by_class)

lemma compare_models_total:
  assumes "\<forall>x y. (localeCompare e x y < 0) = (0 < localeCompare e y x)"
  shows "compare_models e a b \<le> 0 \<or> compare_models e b a \<le> 0"
proof -
  have "localeCompare e (mo_label a) (mo_label b) \<le> 0 \<or>
      localeCompare e (mo_label b) (mo_label a) \<le> 0"
    using assms by (metis not_le order_less_imp_le)
  then show ?thesis
    by (auto simp: compare_models_by_class)
qed

text \<open>
  Claim C7, amended: the comparator puts the entries that are recommended and paid first, then
  the recommended free ones, then the other paid ones, then the rest, and inside a class it is
  the comparison of the labels; entries of one class whose labels compare equal are tied. Where
  the comparison of labels is antisymmetric, so is the comparator, and any two entries are
  comparable; where it is transitive, so is the comparator: a total preorder, not a strict
  order.
\<close>

theorem compare_models_order:
  "(model_class e a < model_class e b \<longrightarrow> compare_models e a b = - 1) \<and>
   (model_class e b < model_class e a \<longrightarrow> compare_models e a b = 1) \<and>
   (model_class e a = model_class e b \<longrightarrow>
      compare_models e a b = localeCompare e (mo_label a) (mo_label b)) \<and>
   ((\<forall>x y. (localeCompare e x y < 0) = (0 < localeCompare e y x)) \<longrightarrow>
      (compare_models e a b < 0) = (0 < compare_models e b a) \<and>
      (compare_models e a b \<le> 0 \<or> compare_models e b a \<le> 0)) \<and>
   ((\<forall>x y z. localeCompare e x y \<le> 0 \<and> localeCompare e y z \<le> 0 \<longrightarrow>
        localeCompare e x z \<le> 0) \<longrightarrow>
      (compare_models e a b \<le> 0 \<and> compare_models e b c \<le> 0 \<longrightarrow> compare_models e a c \<le> 0))"
proof (intro conjI impI)
  assume "\<forall>x y z. localeCompare e x y \<le> 0 \<and> localeCompare e y z \<le> 0 \<longrightarrow>
      localeCompare e x z \<le> 0"
    and "compare_models e a b \<le> 0 \<and> compare_models e b c \<le> 0"
  then show "compare_models e a c \<le> 0"
    using compare_models_trans [of e a b c] by blast
next
  assume *: "\<forall>x y. (localeCompare e x y < 0) = (0 < localeCompare e y x)"
  show "(compare_models e a b < 0) = (0 < compare_models e b a)"
    by (rule compare_models_antisym [OF *])
  show "compare_models e a b \<le> 0 \<or> compare_models e b a \<le> 0"
    by (rule compare_models_total [OF *])
qed (simp_all add: compare_models_by_class)

theorem compare_models_order_witness:
  "model_class sample_env (sample_options ! 2) < model_class sample_env (sample_options ! 1) \<and>
   model_class sample_env (sample_options ! 1) < model_class sample_env (sample_options ! 0) \<and>
   compare_models sample_env (sample_options ! 2) (sample_options ! 1) = - 1 \<and>
   compare_models sample_env (sample_options ! 0) (sample_options ! 1) = 1 \<and>
   compare_models sample_env (sample_options ! 2) (sample_options ! 0) \<le> 0 \<and>
   model_class sample_env (sample_options ! 1) =
     model_class sample_env ((sample_options ! 1)\<lparr>mo_label := js ''A''\<rparr>) \<and>
   compare_models sample_env (sample_options ! 1) ((sample_options ! 1)\<lparr>mo_label := js ''A''\<rparr>)
     = 1 \<and>
   (compare_models sample_env (sample_options ! 2) (sample_options ! 1) < 0) =
     (0 < compare_models sample_env (sample_options ! 1) (sample_options ! 2))"
proof -
  let ?a = "sample_options ! 0" and ?b = "sample_options ! 1" and ?c = "sample_options ! 2"
  have lc: "localeCompare sample_env = codeunit_compare"
    by (simp add: sample_env_def)
  have h1: "\<forall>x y. (localeCompare sample_env x y < 0) = (0 < localeCompare sample_env y x)"
    unfolding lc using codeunit_compare_antisym by blast
  have h2: "\<forall>x y z. localeCompare sample_env x y \<le> 0 \<and> localeCompare sample_env y z \<le> 0 \<longrightarrow>
      localeCompare sample_env x z \<le> 0"
    unfolding lc using codeunit_compare_trans by blast
  have cl: "model_class sample_env ?a = 3" "model_class sample_env ?b = 2"
    "model_class sample_env ?c = 0" "model_class sample_env (?b\<lparr>mo_label := js ''A''\<rparr>) = 2"
    by (simp_all add: model_class_def sample_env_def sample_options_def js_def)
  have lb: "localeCompare sample_env (mo_label ?b) (mo_label (?b\<lparr>mo_label := js ''A''\<rparr>)) = 1"
    by (simp add: lc sample_options_def js_def)
  have 1: "compare_models sample_env ?c ?b = - 1"
    using compare_models_order [of sample_env ?c ?b, THEN conjunct1] cl by simp
  have 2: "compare_models sample_env ?a ?b = 1"
    using compare_models_order [of sample_env ?a ?b, THEN conjunct2, THEN conjunct1] cl by simp
  have 3: "compare_models sample_env ?b ?a = - 1"
    using compare_models_order [of sample_env ?b ?a, THEN conjunct1] cl by simp
  have 4: "compare_models sample_env ?c ?a \<le> 0"
    using compare_models_order [of sample_env ?c ?b ?a, THEN conjunct2, THEN conjunct2,
        THEN conjunct2, THEN conjunct2, THEN mp, OF h2] 1 3
    by simp
  have 5: "compare_models sample_env ?b (?b\<lparr>mo_label := js ''A''\<rparr>) = 1"
    using compare_models_order [of sample_env ?b "?b\<lparr>mo_label := js ''A''\<rparr>",
        THEN conjunct2, THEN conjunct2, THEN conjunct1] cl lb
    by simp
  have 6: "model_class sample_env ?c < model_class sample_env ?b"
    "model_class sample_env ?b < model_class sample_env ?a"
    "model_class sample_env ?b = model_class sample_env (?b\<lparr>mo_label := js ''A''\<rparr>)"
    by (simp_all add: model_class_def sample_env_def sample_options_def js_def)
  have 7: "(compare_models sample_env ?c ?b < 0) = (0 < compare_models sample_env ?b ?c)"
    using compare_models_order [of sample_env ?c ?b, THEN conjunct2, THEN conjunct2,
        THEN conjunct2, THEN conjunct1, THEN mp, OF h1]
    by (rule conjunct1)
  show ?thesis
    by (intro conjI 1 2 4 5 6 7)
qed

end
